theory Spec2Isabelle
  imports Complex_Main "HOL-Library.AList" "HOL-Library.Multiset"
begin

section \<open>Time, identity and sample records (types.hpp)\<close>

text \<open>
  \<^verbatim>\<open>Duration\<close> is \<^verbatim>\<open>std::chrono::duration<int64_t, std::nano>\<close> and \<^verbatim>\<open>Time\<close> a time
  point over it: both are counts of nanoseconds, modelled as \<open>int\<close>; \<open>time_ok\<close> is the range
  of the 64-bit count. Signed overflow is undefined behaviour in the source; the compiled
  subtraction wraps around, and \<open>wrap64\<close> is the value it leaves. The model applies it to
  the differences of two time points that decide over a reset and that enter the
  estimator; the remaining sums and differences of the buffers are taken without
  overflow, and where a proof needs the range, it is a hypothesis.
\<close>

type_synonym Time = int
type_synonym Duration = int

definition time_ok :: "int \<Rightarrow> bool" where
  "time_ok t = (- (2 ^ 63) \<le> t \<and> t < 2 ^ 63)"

definition wrap64 :: "int \<Rightarrow> int" where
  "wrap64 x = (x + 2 ^ 63) mod 2 ^ 64 - 2 ^ 63"

datatype BufferMode = SINGLE | BATCH | MATCH

datatype PushReturn = OK | RESET

record ('id, 'd) TimeData =
  id_src :: 'id
  meas_time :: Time
  receipt_time :: Time
  earliest_estimated_meas_time :: Time
  latest_receipt_time :: Time
  data :: "'d option"
  created_placeholder :: bool

definition is_placeholder :: "('id, 'd) TimeData \<Rightarrow> bool" where
  "is_placeholder e = (data e = None)"

record ('id, 'd) PopReturn =
  pr_buffer_time :: Time
  pr_data :: "('id, 'd) TimeData list"
  pr_discarded_data :: "('id, 'd) TimeData list"

record BatchParams =
  max_delta :: Duration

record 'id MatchParams =
  reference_stream :: 'id
  num_streams :: nat

record MatchMapEntry =
  idx :: nat
  tau :: real

text \<open>\<^verbatim>\<open>std::numeric_limits<double>::max()\<close>, the initial \<open>tau\<close> of a map entry.\<close>

definition DBL_MAX :: real where
  "DBL_MAX = (2 - 1 / 2 ^ 52) * 2 ^ 1023"

text \<open>
  \<^verbatim>\<open>std::sort(_data.begin(), _data.end(), MeasTimeComparator_t())\<close>: the queue, sorted by
  measurement time. \<^verbatim>\<open>std::sort\<close> leaves the order of equal keys open; the model takes
  the stable order.
\<close>

definition sort_by_meas_time :: "('id, 'd) TimeData list \<Rightarrow> ('id, 'd) TimeData list" where
  "sort_by_meas_time xs = sort_key meas_time xs"

subsection \<open>remove_indices\<close>

text \<open>
  \<^verbatim>\<open>std::move(block_start, block_end, back_inserter(output))\<close> appends the elements at
  positions \<open>block_start \<le> k < block_end\<close>. With a duplicate index the source calls it
  with \<open>block_end < block_start\<close>; the element-wise loop of the library then copies
  nothing, which is what the truncating subtraction below does.
\<close>

definition move_block :: "'a list \<Rightarrow> nat \<Rightarrow> nat \<Rightarrow> 'a list" where
  "move_block vec block_start block_end = take (block_end - block_start) (drop block_start vec)"

text \<open>The loop over the sorted indices; it returns the output and the final \<open>block_start\<close>.\<close>

fun remove_indices_loop :: "'a list \<Rightarrow> nat list \<Rightarrow> nat \<Rightarrow> 'a list \<Rightarrow> 'a list \<times> nat" where
  "remove_indices_loop vec [] block_start output = (output, block_start)"
| "remove_indices_loop vec (i # inds) block_start output =
     remove_indices_loop vec inds (i + 1)
       (if block_start \<noteq> i then output @ move_block vec block_start i else output)"

definition remove_indices :: "'a list \<Rightarrow> nat list \<Rightarrow> 'a list" where
  "remove_indices vec inds =
     (if inds = [] then vec
      else
        (case remove_indices_loop vec (sort inds) 0 [] of
           (output, block_start) \<Rightarrow>
             if block_start \<noteq> length vec
             then output @ move_block vec block_start (length vec)
             else output))"

section \<open>Binary64 arithmetic\<close>

text \<open>
  A \<^verbatim>\<open>double\<close> is modelled by the real number it denotes. An arithmetic operation on
  doubles is the exact operation followed by \<open>fl\<close>, the rounding to the nearest binary64
  number with ties to the even significand: a number \<open>x\<close> with \<open>2 ^ e \<le> \<bar>x\<bar> < 2 ^ (e + 1)\<close>
  is rounded to a multiple of \<open>2 ^ (e - 52)\<close>, and to a multiple of \<open>2 ^ - 1074\<close> in the
  subnormal range. Infinities and NaN are not modelled: a result beyond the largest
  double is left as the rounding gives it. Every operation is rounded on its own (no
  fused multiply-add). \<^verbatim>\<open>std::pow(x, 2)\<close> is taken as the rounded product \<open>x * x\<close>, and
  \<^verbatim>\<open>std::sqrt\<close> and \<^verbatim>\<open>std::hypot\<close> as correctly rounded.
\<close>

text \<open>The number of binary digits of a natural number.\<close>

fun bit_length :: "nat \<Rightarrow> nat" where
  "bit_length n = (if n = 0 then 0 else Suc (bit_length (n div 2)))"

declare bit_length.simps [simp del]

definition pow2 :: "int \<Rightarrow> real" where
  "pow2 k = (if 0 \<le> k then 2 ^ nat k else 1 / 2 ^ nat (- k))"

text \<open>The binary exponent of \<open>x \<noteq> 0\<close>: the \<open>e\<close> with \<open>2 ^ e \<le> \<bar>x\<bar> < 2 ^ (e + 1)\<close>.\<close>

definition exponent_of :: "real \<Rightarrow> int" where
  "exponent_of x =
     (if 1 \<le> \<bar>x\<bar> then int (bit_length (nat \<lfloor>\<bar>x\<bar>\<rfloor>)) - 1
      else - int (bit_length (nat (\<lceil>1 / \<bar>x\<bar>\<rceil> - 1))))"

definition round_even :: "real \<Rightarrow> int" where
  "round_even y =
     (let f = \<lfloor>y\<rfloor>; r = y - of_int f
      in if r < 1 / 2 then f else if 1 / 2 < r then f + 1 else if even f then f else f + 1)"

text \<open>The exponent of the unit in the last place of the double nearest to \<open>x\<close>.\<close>

definition quantum :: "real \<Rightarrow> int" where
  "quantum x = max (exponent_of x - 52) (- 1074)"

definition fl :: "real \<Rightarrow> real" where
  "fl x = (if x = 0 then 0 else of_int (round_even (x / pow2 (quantum x))) * pow2 (quantum x))"

definition dadd :: "real \<Rightarrow> real \<Rightarrow> real" where
  "dadd x y = fl (x + y)"

definition dsub :: "real \<Rightarrow> real \<Rightarrow> real" where
  "dsub x y = fl (x - y)"

definition dmul :: "real \<Rightarrow> real \<Rightarrow> real" where
  "dmul x y = fl (x * y)"

definition ddiv :: "real \<Rightarrow> real \<Rightarrow> real" where
  "ddiv x y = fl (x / y)"

definition dsqrt :: "real \<Rightarrow> real" where
  "dsqrt x = fl (sqrt x)"

definition dhypot :: "real \<Rightarrow> real \<Rightarrow> real" where
  "dhypot x y = fl (sqrt (x ^ 2 + y ^ 2))"

text \<open>\<^verbatim>\<open>static_cast<double>(n)\<close> of a 64-bit integer, signed or unsigned.\<close>

definition double_of_int :: "int \<Rightarrow> real" where
  "double_of_int n = fl (real_of_int n)"

definition double_of_nat :: "nat \<Rightarrow> real" where
  "double_of_nat n = fl (real n)"

section \<open>Stream characteristics estimator\<close>

record State =
  mean :: real
  variance :: real

record Estimator =
  num_updates :: nat
  last_meas_time :: Time
  est_current_time :: Time
  alpha :: real
  period_state :: State
  latency_state :: State

datatype error = EstimatorDesync

text \<open>\<^verbatim>\<open>static_cast<Duration::rep>(x)\<close> of a double: truncation towards zero.\<close>

definition trunc :: "real \<Rightarrow> int" where
  "trunc x = (if 0 \<le> x then \<lfloor>x\<rfloor> else \<lceil>x\<rceil>)"

text \<open>The default \<open>alpha = 0.05\<close> of the constructor: the double nearest to \<open>5 / 100\<close>.\<close>

definition default_alpha :: real where
  "default_alpha = fl (5 / 100)"

text \<open>The constructor, with \<open>alpha\<close> passed explicitly.\<close>

definition StreamCharacteristicsEstimator :: "Time \<Rightarrow> Time \<Rightarrow> real \<Rightarrow> Estimator" where
  "StreamCharacteristicsEstimator current_time meas_t a =
     \<lparr> num_updates = 0, last_meas_time = meas_t, est_current_time = current_time, alpha = a,
       period_state = \<lparr> mean = 0, variance = 0 \<rparr>,
       latency_state = \<lparr> mean = double_of_int (wrap64 (current_time - meas_t)), variance = 0 \<rparr> \<rparr>"

definition latency :: "Estimator \<Rightarrow> Duration" where
  "latency e = trunc (mean (latency_state e))"

definition latency_stddev :: "Estimator \<Rightarrow> Duration" where
  "latency_stddev e = trunc (dsqrt (variance (latency_state e)))"

definition period :: "Estimator \<Rightarrow> Duration" where
  "period e = trunc (mean (period_state e))"

definition period_stddev :: "Estimator \<Rightarrow> Duration" where
  "period_stddev e = trunc (dsqrt (variance (period_state e)))"

definition isInitialized :: "Estimator \<Rightarrow> bool" where
  "isInitialized e = (num_updates e \<ge> 2)"

definition updateEstimates :: "real \<Rightarrow> State \<Rightarrow> real \<Rightarrow> bool \<Rightarrow> State" where
  "updateEstimates a state estimate update_variance =
     (let diff = dsub estimate (mean state);
          increment = dmul a diff;
          m = dadd (mean state) increment;
          v = (if update_variance
               then dmul (dsub 1 a) (dadd (variance state) (dmul diff increment))
               else variance state)
      in \<lparr> mean = m, variance = v \<rparr>)"

text \<open>
  The local \<^verbatim>\<open>corrected_estimate\<close> of \<^verbatim>\<open>updatePeriodEstimate\<close>: the \<^verbatim>\<open>size_t\<close> is converted to
  a double, the product is rounded, then the difference.
\<close>

definition corrected_estimate :: "Estimator \<Rightarrow> real \<Rightarrow> nat \<Rightarrow> real" where
  "corrected_estimate e estimate num_missing_measurements =
     dsub estimate (dmul (double_of_nat num_missing_measurements) (mean (period_state e)))"

text \<open>
  \<^verbatim>\<open>updatePeriodEstimate\<close> either throws or returns; the model returns the estimator as
  the call leaves it together with the error, if one was thrown.
\<close>

definition updatePeriodEstimate :: "real \<Rightarrow> nat \<Rightarrow> Estimator \<Rightarrow> error option \<times> Estimator" where
  "updatePeriodEstimate estimate num_missing_measurements e =
     (if num_updates e = 0 then
        (None, e\<lparr> period_state := (period_state e)\<lparr> mean := estimate \<rparr> \<rparr>)
      else if num_updates e = 1 then
        (let first_estimate = mean (period_state e);
             st = updateEstimates (alpha e) (period_state e) estimate False;
             d1 = dsub first_estimate (mean st);
             d2 = dsub estimate (mean st);
             st' = st\<lparr> variance := dadd (dmul d1 d1) (dmul d2 d2) \<rparr>
         in (None, e\<lparr> period_state := st' \<rparr>))
      else
        (let corrected = corrected_estimate e estimate num_missing_measurements in
         if corrected < 0 then
           (if num_updates e > 10 then (Some EstimatorDesync, e) else (None, e))
         else (None, e\<lparr> period_state := updateEstimates (alpha e) (period_state e) corrected True \<rparr>)))"

definition updateLatencyEstimate :: "real \<Rightarrow> Estimator \<Rightarrow> Estimator" where
  "updateLatencyEstimate estimate e =
     (if num_updates e = 0 then
        (let st = updateEstimates (alpha e) (latency_state e) estimate False;
             first_estimate = double_of_int (wrap64 (est_current_time e - last_meas_time e));
             d1 = dsub first_estimate (mean st);
             d2 = dsub estimate (mean st);
             st' = st\<lparr> variance := dadd (dmul d1 d1) (dmul d2 d2) \<rparr>
         in e\<lparr> latency_state := st' \<rparr>)
      else e\<lparr> latency_state := updateEstimates (alpha e) (latency_state e) estimate True \<rparr>)"

definition update :: "Time \<Rightarrow> Time \<Rightarrow> nat \<Rightarrow> Estimator \<Rightarrow> error option \<times> Estimator" where
  "update current_time meas_t num_missing_measurement e =
     (let estimated_latency = double_of_int (wrap64 (current_time - meas_t));
          estimated_period = double_of_int (wrap64 (meas_t - last_meas_time e))
      in case updatePeriodEstimate estimated_period num_missing_measurement e of
           (Some err, e1) \<Rightarrow> (Some err, e1)
         | (None, e1) \<Rightarrow>
             (let e2 = updateLatencyEstimate estimated_latency e1
              in (None, e2\<lparr> last_meas_time := meas_t, est_current_time := current_time,
                           num_updates := num_updates e2 + 1 \<rparr>)))"

definition updateLatencyOnly :: "Time \<Rightarrow> Time \<Rightarrow> Estimator \<Rightarrow> Estimator" where
  "updateLatencyOnly current_time meas_t e =
     (let estimated_latency = double_of_int (wrap64 (current_time - meas_t));
          e1 = updateLatencyEstimate estimated_latency e
      in e1\<lparr> last_meas_time := meas_t, est_current_time := current_time \<rparr>)"

section \<open>The matching map\<close>

text \<open>
  \<^verbatim>\<open>MatchingMap\<close> is a \<^verbatim>\<open>std::unordered_map<SourceId, MatchMapEntry>\<close>. The model keeps
  the entries in an association list with distinct keys, in insertion order. The order
  in which the source iterates over the map is not fixed by the language; wherever the
  source iterates, the model applies a parameter \<open>ord\<close> to the list of entries.
\<close>

type_synonym 'id MatchingMap = "('id \<times> MatchMapEntry) list"

text \<open>\<^verbatim>\<open>matching_map[k]\<close>: the entry is created at first access, with \<open>idx = 0\<close> and
  \<open>tau = DBL_MAX\<close>. \<open>map_index\<close> is the map after the access, \<open>map_at\<close> the entry.\<close>

definition default_entry :: MatchMapEntry where
  "default_entry = \<lparr> idx = 0, tau = DBL_MAX \<rparr>"

definition map_index :: "'id MatchingMap \<Rightarrow> 'id \<Rightarrow> 'id MatchingMap" where
  "map_index m k = (case map_of m k of Some v \<Rightarrow> m | None \<Rightarrow> m @ [(k, default_entry)])"

definition map_at :: "'id MatchingMap \<Rightarrow> 'id \<Rightarrow> MatchMapEntry" where
  "map_at m k = (case map_of m k of Some v \<Rightarrow> v | None \<Rightarrow> default_entry)"

text \<open>\<^verbatim>\<open>std::chrono::duration<double>(d).count()\<close>: nanoseconds as seconds, the count
  converted to a double and divided by \<open>10 ^ 9\<close>.\<close>

definition seconds :: "Duration \<Rightarrow> real" where
  "seconds d = ddiv (double_of_int d) (10 ^ 9)"

text \<open>The compare-and-take step that both buffers run on a candidate at index \<open>ix\<close>.\<close>

definition take_if_closer :: "'id MatchingMap \<Rightarrow> 'id \<Rightarrow> nat \<Rightarrow> Duration \<Rightarrow> 'id MatchingMap" where
  "take_if_closer m k ix current_diff =
     (if seconds current_diff < tau (map_at m k)
      then AList.update k \<lparr> idx = ix, tau = seconds current_diff \<rparr> (map_index m k)
      else map_index m k)"

subsection \<open>Finding the reference sample\<close>

record RefSearch =
  found_ref :: bool
  found_next_ref :: bool
  ref_idx :: nat
  oldest_ref_meas_time :: Time
  next_ref_meas_time :: Time

definition ref_search_init :: RefSearch where
  "ref_search_init = \<lparr> found_ref = False, found_next_ref = False, ref_idx = 0,
                        oldest_ref_meas_time = 0, next_ref_meas_time = 0 \<rparr>"

text \<open>The first loop of \<^verbatim>\<open>runMatching\<close> (the same in both buffers), over the indices that
  are ready for output; the second reference sample ends it.\<close>

fun find_reference ::
  "'id \<Rightarrow> ('id, 'd) TimeData list \<Rightarrow> nat list \<Rightarrow> RefSearch \<Rightarrow> RefSearch" where
  "find_reference R dat [] st = st"
| "find_reference R dat (ix # rest) st =
     (if id_src (dat ! ix) = R then
        (if \<not> found_ref st then
           find_reference R dat rest
             (st\<lparr> found_ref := True, ref_idx := ix,
                  oldest_ref_meas_time := meas_time (dat ! ix) \<rparr>)
         else st\<lparr> found_next_ref := True, next_ref_meas_time := meas_time (dat ! ix) \<rparr>)
      else find_reference R dat rest st)"

section \<open>Fixed-lag buffer\<close>

record 'id FL_Params =
  flp_mode :: BufferMode
  flp_reset_threshold :: Duration
  flp_delay_mean :: Duration
  flp_delay_stddev :: Duration
  flp_delay_quantile :: real
  flp_batch :: BatchParams
  flp_match :: "'id MatchParams"

record ('id, 'd) FixedLagBuffer =
  fl_params :: "'id FL_Params"
  fl_data :: "('id, 'd) TimeData list"
  fl_fixed_lag_delay :: Duration
  fl_buffer_time :: Time
  fl_current_time :: Time

text \<open>\<^verbatim>\<open>std::numeric_limits<double>::epsilon()\<close>.\<close>

definition DBL_EPSILON :: real where
  "DBL_EPSILON = 1 / 2 ^ 52"

text \<open>
  The constructor. \<open>Q sd p\<close> stands for
  \<^verbatim>\<open>boost::math::quantile(boost::math::normal_distribution(0.0, sd), p)\<close>, a parameter of
  the model. The quantile, in seconds, is multiplied by \<open>10 ^ 9\<close> and truncated.
\<close>

definition FixedLagBuffer_new ::
  "(real \<Rightarrow> real \<Rightarrow> real) \<Rightarrow> 'id FL_Params \<Rightarrow> ('id, 'd) FixedLagBuffer" where
  "FixedLagBuffer_new Q params =
     (let d0 = flp_delay_mean params;
          d1 = (if flp_mode params = BATCH then d0 + max_delta (flp_batch params) else d0);
          delay_stddev = seconds (flp_delay_stddev params);
          d2 = (if delay_stddev > DBL_EPSILON
                then d1 + trunc (dmul (Q delay_stddev
                                         (dsub 1 (ddiv (dsub 1 (flp_delay_quantile params)) 2)))
                                      (10 ^ 9))
                else d1)
      in \<lparr> fl_params = params, fl_data = [], fl_fixed_lag_delay = d2,
           fl_buffer_time = 0, fl_current_time = 0 \<rparr>)"

definition fl_reset :: "('id, 'd) FixedLagBuffer \<Rightarrow> ('id, 'd) FixedLagBuffer" where
  "fl_reset s = s\<lparr> fl_data := [], fl_buffer_time := 0, fl_current_time := 0 \<rparr>"

definition new_element :: "'id \<Rightarrow> Time \<Rightarrow> Time \<Rightarrow> 'd \<Rightarrow> ('id, 'd) TimeData" where
  "new_element i meas_t receipt_t d =
     \<lparr> id_src = i, meas_time = meas_t, receipt_time = receipt_t,
       earliest_estimated_meas_time = meas_t, latest_receipt_time = receipt_t,
       data = Some d, created_placeholder = False \<rparr>"

definition fl_push ::
  "'id \<Rightarrow> Time \<Rightarrow> Time \<Rightarrow> 'd \<Rightarrow> ('id, 'd) FixedLagBuffer \<Rightarrow> PushReturn \<times> ('id, 'd) FixedLagBuffer" where
  "fl_push i receipt_t meas_t d s =
     (if wrap64 (fl_current_time s - receipt_t) > flp_reset_threshold (fl_params s)
      then (RESET, fl_reset s)
      else (OK, s\<lparr> fl_data := sort_by_meas_time (fl_data s @ [new_element i meas_t receipt_t d]) \<rparr>))"

text \<open>The first loop of \<^verbatim>\<open>pop\<close>, from index \<open>i\<close> on: \<open>(output_inds, discard_inds)\<close>.\<close>

fun fl_scan :: "Time \<Rightarrow> Time \<Rightarrow> ('id, 'd) TimeData list \<Rightarrow> nat \<Rightarrow> nat list \<times> nat list" where
  "fl_scan bt ref_meas_time [] i = ([], [])"
| "fl_scan bt ref_meas_time (element # rest) i =
     (if meas_time element \<le> bt then
        (case fl_scan bt ref_meas_time rest (i + 1) of (out, dis) \<Rightarrow> (out, i # dis))
      else if meas_time element \<le> ref_meas_time then
        (case fl_scan bt ref_meas_time rest (i + 1) of (out, dis) \<Rightarrow> (i # out, dis))
      else ([], []))"

text \<open>The batch step of \<^verbatim>\<open>pop\<close> (mode BATCH, \<open>output_inds\<close> not empty).\<close>

definition fl_batch :: "('id, 'd) TimeData list \<Rightarrow> Duration \<Rightarrow> nat list \<Rightarrow> nat list" where
  "fl_batch dat delta output_inds =
     (let front = hd output_inds;
          oldest_output_time = meas_time (dat ! front);
          batch_reference_time = oldest_output_time + delta
      in front # filter (\<lambda>ix. meas_time (dat ! ix) < batch_reference_time)
                        [front + 1 ..< length dat])"

text \<open>The search of the queue behind the reference for the next reference sample.\<close>

definition fl_search_queue :: "'id \<Rightarrow> ('id, 'd) TimeData list \<Rightarrow> RefSearch \<Rightarrow> RefSearch" where
  "fl_search_queue R dat st =
     (case find (\<lambda>element. id_src element = R) (drop (ref_idx st + 1) dat) of
        Some element \<Rightarrow> st\<lparr> found_next_ref := True, next_ref_meas_time := meas_time element \<rparr>
      | None \<Rightarrow> st\<lparr> next_ref_meas_time := 0 \<rparr>)"

definition fl_find_refs :: "'id \<Rightarrow> ('id, 'd) TimeData list \<Rightarrow> nat list \<Rightarrow> RefSearch" where
  "fl_find_refs R dat ready =
     (let st = find_reference R dat ready ref_search_init
      in if found_ref st \<and> \<not> found_next_ref st then fl_search_queue R dat st else st)"

text \<open>The matching loop over the whole queue, from index \<open>i\<close> on: the map and
  \<open>found_better_for_next\<close>.\<close>

fun fl_match_loop ::
  "'id \<Rightarrow> Time \<Rightarrow> Time \<Rightarrow> ('id, 'd) TimeData list \<Rightarrow> nat \<Rightarrow> 'id MatchingMap
   \<Rightarrow> 'id MatchingMap \<times> bool" where
  "fl_match_loop R t_ref t_next [] i m = (m, False)"
| "fl_match_loop R t_ref t_next (element # rest) i m =
     (if id_src element = R then fl_match_loop R t_ref t_next rest (i + 1) m
      else
        (let current_diff = \<bar>meas_time element - t_ref\<bar>;
             next_diff = \<bar>meas_time element - t_next\<bar>
         in if next_diff < current_diff then (m, map_of m (id_src element) = None)
            else fl_match_loop R t_ref t_next rest (i + 1)
                   (take_if_closer m (id_src element) i current_diff)))"

text \<open>The matching map and \<open>found_better_for_next\<close> that \<^verbatim>\<open>runMatching\<close> computes once the
  reference is found.\<close>

definition fl_matching_scan ::
  "'id FL_Params \<Rightarrow> ('id, 'd) TimeData list \<Rightarrow> nat list \<Rightarrow> 'id MatchingMap \<times> bool" where
  "fl_matching_scan params dat ready_for_output_inds =
     (let R = reference_stream (flp_match params);
          st = fl_find_refs R dat ready_for_output_inds
      in fl_match_loop R (oldest_ref_meas_time st) (next_ref_meas_time st) dat 0
           [(R, \<lparr> idx = ref_idx st, tau = 0 \<rparr>)])"

definition fl_runMatching ::
  "('id MatchingMap \<Rightarrow> 'id MatchingMap) \<Rightarrow> 'id FL_Params \<Rightarrow> ('id, 'd) TimeData list
   \<Rightarrow> nat list \<Rightarrow> nat list \<times> nat list" where
  "fl_runMatching ord params dat ready_for_output_inds =
     (let st = fl_find_refs (reference_stream (flp_match params)) dat ready_for_output_inds
      in if \<not> found_ref st then ([], [])
         else
           (case fl_matching_scan params dat ready_for_output_inds of
              (matching_map, found_better_for_next) \<Rightarrow>
                if length matching_map \<noteq> num_streams (flp_match params)
                then (if found_better_for_next then ([], [ref_idx st]) else ([], []))
                else (map (\<lambda>map_entry. idx (snd map_entry)) (ord matching_map), [])))"

text \<open>The index lists after the mode step of \<^verbatim>\<open>pop\<close>: \<open>(output_inds, discard_inds)\<close>.\<close>

definition fl_select ::
  "('id MatchingMap \<Rightarrow> 'id MatchingMap) \<Rightarrow> Time \<Rightarrow> ('id, 'd) FixedLagBuffer
   \<Rightarrow> nat list \<times> nat list" where
  "fl_select ord t s =
     (let params = fl_params s;
          ref_meas_time = t - fl_fixed_lag_delay s
      in case fl_scan (fl_buffer_time s) ref_meas_time (fl_data s) 0 of
           (output_inds, discard_inds) \<Rightarrow>
             if flp_mode params = BATCH \<and> output_inds \<noteq> [] then
               (fl_batch (fl_data s) (max_delta (flp_batch params)) output_inds, discard_inds)
             else if flp_mode params = MATCH \<and> output_inds \<noteq> [] then
               (case fl_runMatching ord params (fl_data s) output_inds of
                  (tuple_inds, delete_inds) \<Rightarrow> (tuple_inds, discard_inds @ delete_inds))
             else (output_inds, discard_inds))"

text \<open>\<^verbatim>\<open>pop\<close> moves the selected elements out of the queue and removes their positions
  afterwards; the payload is opaque, and the model copies the records.\<close>

definition fl_pop ::
  "('id MatchingMap \<Rightarrow> 'id MatchingMap) \<Rightarrow> Time \<Rightarrow> ('id, 'd) FixedLagBuffer
   \<Rightarrow> ('id, 'd) PopReturn \<times> ('id, 'd) FixedLagBuffer" where
  "fl_pop ord t s =
     (case fl_select ord t s of
        (output_inds, discard_inds) \<Rightarrow>
          (let result_data = map (\<lambda>ix. fl_data s ! ix) output_inds;
               discarded = map (\<lambda>ix. fl_data s ! ix) discard_inds;
               bt = (if result_data \<noteq> [] then meas_time (last result_data) else fl_buffer_time s);
               remaining = remove_indices (fl_data s) (discard_inds @ output_inds)
           in (\<lparr> pr_buffer_time = bt, pr_data = result_data, pr_discarded_data = discarded \<rparr>,
               s\<lparr> fl_data := sort_by_meas_time remaining, fl_buffer_time := bt \<rparr>)))"

definition fl_getCurrentTime :: "('id, 'd) FixedLagBuffer \<Rightarrow> Time" where
  "fl_getCurrentTime s = fl_current_time s"

definition fl_getBufferTime :: "('id, 'd) FixedLagBuffer \<Rightarrow> Time" where
  "fl_getBufferTime s = fl_buffer_time s"

section \<open>Minimal-latency buffer\<close>

record 'id ML_Params =
  mlp_mode :: BufferMode
  mlp_reset_threshold :: Duration
  mlp_measurement_confidence_quantile :: real
  mlp_max_abs_measurement_jitter :: Duration
  mlp_wait_confidence_quantile :: real
  mlp_max_abs_wait_jitter :: Duration
  mlp_max_total_wait_time :: Duration
  mlp_batch :: BatchParams
  mlp_match :: "'id MatchParams"

text \<open>\<^verbatim>\<open>_source_infos\<close> is an association list with distinct keys: its length is the
  \<^verbatim>\<open>size()\<close> of the map.\<close>

record ('id, 'd) MinimalLatencyBuffer =
  ml_params :: "'id ML_Params"
  ml_data :: "('id, 'd) TimeData list"
  ml_source_infos :: "('id \<times> Estimator) list"
  ml_buffer_time :: Time
  ml_current_time :: Time

definition MAX_INSERTED_PLACEHOLDERS :: nat where
  "MAX_INSERTED_PLACEHOLDERS = 10"

definition MinimalLatencyBuffer_new :: "'id ML_Params \<Rightarrow> ('id, 'd) MinimalLatencyBuffer" where
  "MinimalLatencyBuffer_new params =
     \<lparr> ml_params = params, ml_data = [], ml_source_infos = [],
       ml_buffer_time = 0, ml_current_time = 0 \<rparr>"

definition ml_reset :: "('id, 'd) MinimalLatencyBuffer \<Rightarrow> ('id, 'd) MinimalLatencyBuffer" where
  "ml_reset s = s\<lparr> ml_data := [], ml_buffer_time := 0, ml_current_time := 0,
                   ml_source_infos := [] \<rparr>"

text \<open>\<^verbatim>\<open>std::clamp(v, lo, hi)\<close>.\<close>

definition clamp :: "int \<Rightarrow> int \<Rightarrow> int \<Rightarrow> int" where
  "clamp v lo hi = (if v < lo then lo else if hi < v then hi else v)"

text \<open>
  \<^verbatim>\<open>createPlaceholder\<close>. The source looks the estimator of \<open>id\<close> up and throws when it is
  missing or not initialized; its only caller, \<^verbatim>\<open>create_placeholders\<close>, has checked both,
  and the model passes the estimator. \<open>Q sd p\<close> is the quantile at \<open>p\<close> of the normal
  distribution with mean 0 and standard deviation \<open>sd\<close>, computed by the library.
\<close>

definition createPlaceholder ::
  "(real \<Rightarrow> real \<Rightarrow> real) \<Rightarrow> 'id ML_Params \<Rightarrow> Estimator \<Rightarrow> 'id \<Rightarrow> Time \<Rightarrow> nat
   \<Rightarrow> ('id, 'd) TimeData" where
  "createPlaceholder Q params estimator i meas_t placeholder_index =
     (let period_offset = int placeholder_index * period estimator;
          period_stddev_count = double_of_int (period_stddev estimator);
          period_variance = dmul period_stddev_count period_stddev_count;
          period_stddev_sum = dsqrt (dmul (double_of_nat placeholder_index) period_variance);
          meas_quantile_limited =
            (if period_stddev_sum > 0
             then clamp (trunc (Q period_stddev_sum
                                 (ddiv (dsub 1 (mlp_measurement_confidence_quantile params)) 2)))
                        (- mlp_max_abs_measurement_jitter params)
                        (mlp_max_abs_measurement_jitter params)
             else 0);
          wait_quantile_limited =
            (if latency_stddev estimator > 0
             then (let wait_stddev =
                         dhypot period_stddev_sum (double_of_int (latency_stddev estimator))
                   in clamp (trunc (Q wait_stddev
                                      (dsub 1 (ddiv (dsub 1 (mlp_wait_confidence_quantile params)) 2))))
                            (- mlp_max_abs_wait_jitter params)
                            (mlp_max_abs_wait_jitter params))
             else 0);
          earliest_expected_meas_time = meas_t + period_offset + meas_quantile_limited;
          latest_expected_reception_time =
            meas_t + period_offset
            + min (latency estimator + wait_quantile_limited) (mlp_max_total_wait_time params)
      in \<lparr> id_src = i, meas_time = earliest_expected_meas_time,
           receipt_time = latest_expected_reception_time,
           earliest_estimated_meas_time = earliest_expected_meas_time,
           latest_receipt_time = latest_expected_reception_time,
           data = None, created_placeholder = False \<rparr>)"

text \<open>The loop of \<^verbatim>\<open>create_placeholders\<close>: \<open>n\<close> iterations are left, the next index is \<open>k\<close>.\<close>

fun placeholders_loop ::
  "(real \<Rightarrow> real \<Rightarrow> real) \<Rightarrow> 'id ML_Params \<Rightarrow> Estimator \<Rightarrow> Time \<Rightarrow> 'id \<Rightarrow> Time
   \<Rightarrow> nat \<Rightarrow> nat \<Rightarrow> ('id, 'd) TimeData list" where
  "placeholders_loop Q params estimator bt i meas_t 0 k = []"
| "placeholders_loop Q params estimator bt i meas_t (Suc n) k =
     (let placeholder = createPlaceholder Q params estimator i meas_t k
      in if earliest_estimated_meas_time placeholder > bt
         then [placeholder\<lparr> created_placeholder := False \<rparr>]
         else placeholder\<lparr> created_placeholder := True \<rparr>
              # placeholders_loop Q params estimator bt i meas_t n (k + 1))"

text \<open>\<^verbatim>\<open>create_placeholders\<close> returns the element, whose flag it may have set, and the
  new placeholders.\<close>

definition create_placeholders ::
  "(real \<Rightarrow> real \<Rightarrow> real) \<Rightarrow> ('id, 'd) MinimalLatencyBuffer \<Rightarrow> ('id, 'd) TimeData \<Rightarrow> nat
   \<Rightarrow> ('id, 'd) TimeData \<times> ('id, 'd) TimeData list" where
  "create_placeholders Q s element max_number =
     (case map_of (ml_source_infos s) (id_src element) of
        None \<Rightarrow> (element, [])
      | Some estimator \<Rightarrow>
          if \<not> isInitialized estimator \<or> created_placeholder element then (element, [])
          else (element\<lparr> created_placeholder := True \<rparr>,
                placeholders_loop Q (ml_params s) estimator (ml_buffer_time s)
                  (id_src element) (meas_time element) max_number 1))"

subsection \<open>push\<close>

text \<open>Division of a duration by 2 rounds towards zero.\<close>

definition half :: "Duration \<Rightarrow> Duration" where
  "half d = (if 0 \<le> d then d div 2 else - ((- d) div 2))"

text \<open>The search for the best fitting placeholder, from index \<open>i\<close> on; the state is
  \<open>(min, best_ind, num_missed_placeholder)\<close>.\<close>

fun push_search ::
  "'id \<Rightarrow> Time \<Rightarrow> ('id, 'd) TimeData list \<Rightarrow> nat \<Rightarrow> Duration \<times> nat option \<times> nat
   \<Rightarrow> Duration \<times> nat option \<times> nat" where
  "push_search i meas_t [] n st = st"
| "push_search i meas_t (sample # rest) n (mn, best_ind, missed) =
     (if id_src sample = i \<and> is_placeholder sample then
        (let missed' = (if meas_time sample < meas_t then missed + 1 else missed)
         in if \<bar>meas_time sample - meas_t\<bar> < mn
            then push_search i meas_t rest (n + 1) (\<bar>meas_time sample - meas_t\<bar>, Some n, missed')
            else push_search i meas_t rest (n + 1) (mn, best_ind, missed'))
      else push_search i meas_t rest (n + 1) (mn, best_ind, missed))"

text \<open>The queue after the new sample went in (into its placeholder, or at the end), and
  the corrected number of missed placeholders.\<close>

definition push_insert ::
  "(real \<Rightarrow> real \<Rightarrow> real) \<Rightarrow> ('id, 'd) MinimalLatencyBuffer \<Rightarrow> 'id \<Rightarrow> Time \<Rightarrow> Time \<Rightarrow> 'd
   \<Rightarrow> nat option \<Rightarrow> nat \<Rightarrow> ('id, 'd) TimeData list \<times> nat" where
  "push_insert Q s i receipt_t meas_t d best_ind missed =
     (case best_ind of
        Some b \<Rightarrow>
          (let missed' = (if missed > 0 \<and> meas_t > meas_time (ml_data s ! b)
                          then missed - 1 else missed);
               element = (ml_data s ! b)\<lparr> data := Some d, meas_time := meas_t,
                                          receipt_time := receipt_t \<rparr>
           in case create_placeholders Q s element MAX_INSERTED_PLACEHOLDERS of
                (element', new_placeholders) \<Rightarrow>
                  ((ml_data s)[b := element'] @ new_placeholders, missed'))
      | None \<Rightarrow>
          (case create_placeholders Q s (new_element i meas_t receipt_t d)
                  MAX_INSERTED_PLACEHOLDERS of
             (element', new_placeholders) \<Rightarrow>
               (ml_data s @ new_placeholders @ [element'], missed)))"

text \<open>The estimator update of \<^verbatim>\<open>push\<close>; a thrown error is caught and dropped, the
  estimator stays as the throwing call left it.\<close>

definition push_update_estimator :: "Time \<Rightarrow> Time \<Rightarrow> nat option \<Rightarrow> nat \<Rightarrow> Estimator \<Rightarrow> Estimator" where
  "push_update_estimator receipt_t meas_t best_ind missed estimator =
     (if \<not> isInitialized estimator then snd (update receipt_t meas_t 0 estimator)
      else if best_ind \<noteq> None then snd (update receipt_t meas_t missed estimator)
      else updateLatencyOnly receipt_t meas_t estimator)"

definition stale_placeholder :: "'id \<Rightarrow> Time \<Rightarrow> ('id, 'd) TimeData \<Rightarrow> bool" where
  "stale_placeholder i meas_t sample =
     (id_src sample = i \<and> is_placeholder sample \<and> meas_time sample < meas_t)"

definition ml_push ::
  "(real \<Rightarrow> real \<Rightarrow> real) \<Rightarrow> 'id \<Rightarrow> Time \<Rightarrow> Time \<Rightarrow> 'd \<Rightarrow> ('id, 'd) MinimalLatencyBuffer
   \<Rightarrow> PushReturn \<times> ('id, 'd) MinimalLatencyBuffer" where
  "ml_push Q i receipt_t meas_t d s =
     (if wrap64 (ml_current_time s - receipt_t) > mlp_reset_threshold (ml_params s)
      then (RESET, ml_reset s)
      else
        (let cur = max (ml_current_time s) receipt_t in
         case map_of (ml_source_infos s) i of
           None \<Rightarrow>
             (OK, s\<lparr> ml_current_time := cur,
                     ml_source_infos := ml_source_infos s
                        @ [(i, StreamCharacteristicsEstimator receipt_t meas_t default_alpha)],
                     ml_data := sort_by_meas_time
                                  (ml_data s @ [new_element i meas_t receipt_t d]) \<rparr>)
         | Some estimator \<Rightarrow>
             (case push_search i meas_t (ml_data s) 0 (half (period estimator), None, 0) of
                (mn, best_ind, missed) \<Rightarrow>
                  (case push_insert Q s i receipt_t meas_t d best_ind missed of
                     (dat, missed') \<Rightarrow>
                       (OK, s\<lparr> ml_current_time := cur,
                               ml_source_infos := AList.update i
                                  (push_update_estimator receipt_t meas_t best_ind missed' estimator)
                                  (ml_source_infos s),
                               ml_data := sort_by_meas_time
                                  (filter (\<lambda>sample. \<not> stale_placeholder i meas_t sample) dat) \<rparr>)))))"

subsection \<open>pop\<close>

record ('id, 'd) PopLoop =
  p_time :: Time
  output_inds :: "nat list"
  discard_inds :: "nat list"
  delete_inds :: "nat list"
  cleaned_data :: "('id, 'd) TimeData list"
  p_data :: "('id, 'd) TimeData list"

text \<open>What the loop of \<^verbatim>\<open>pop\<close> decides for one element: \<open>None\<close> is the \<^verbatim>\<open>break\<close>.\<close>

definition pop_visit ::
  "Time \<Rightarrow> ('id, 'd) TimeData \<Rightarrow> nat \<Rightarrow> ('id, 'd) PopLoop \<Rightarrow> ('id, 'd) PopLoop option" where
  "pop_visit bt element i acc =
     (if meas_time element < bt then
        (if \<not> is_placeholder element
         then Some (acc\<lparr> discard_inds := discard_inds acc @ [i],
                         delete_inds := delete_inds acc @ [i] \<rparr>)
         else Some acc)
      else if is_placeholder element then
        (if receipt_time element \<ge> p_time acc then None else Some acc)
      else
        (if meas_time element > p_time acc then None
         else Some (acc\<lparr> output_inds := output_inds acc @ [i] \<rparr>)))"

fun ml_pop_loop ::
  "(real \<Rightarrow> real \<Rightarrow> real) \<Rightarrow> ('id, 'd) MinimalLatencyBuffer \<Rightarrow> ('id, 'd) TimeData list \<Rightarrow> nat
   \<Rightarrow> ('id, 'd) PopLoop \<Rightarrow> ('id, 'd) PopLoop" where
  "ml_pop_loop Q s [] i acc = acc"
| "ml_pop_loop Q s (element # rest) i acc =
     (case pop_visit (ml_buffer_time s) element i acc of
        None \<Rightarrow> acc
      | Some acc1 \<Rightarrow>
          (case create_placeholders Q s element MAX_INSERTED_PLACEHOLDERS of
             (element', new_placeholders) \<Rightarrow>
               ml_pop_loop Q s rest (i + 1)
                 (acc1\<lparr> p_time := (if new_placeholders \<noteq> []
                                    then min (p_time acc1) (meas_time (last new_placeholders))
                                    else p_time acc1),
                        cleaned_data := cleaned_data acc1 @ new_placeholders,
                        p_data := (p_data acc1)[i := element'] \<rparr>)))"

definition ml_runBatching ::
  "'id ML_Params \<Rightarrow> ('id, 'd) TimeData list \<Rightarrow> nat list \<Rightarrow> Time \<Rightarrow> nat list" where
  "ml_runBatching params dat ready_for_output_ids t =
     (let batch_start_time = meas_time (dat ! hd ready_for_output_ids);
          found_placeholder =
            list_ex (\<lambda>element. is_placeholder element
                       \<and> earliest_estimated_meas_time element - batch_start_time
                           < max_delta (mlp_batch params)
                       \<and> latest_receipt_time element > t)
                    (drop (last ready_for_output_ids) dat)
      in if found_placeholder then [] else ready_for_output_ids)"

definition ml_find_refs ::
  "'id \<Rightarrow> ('id \<times> Estimator) list \<Rightarrow> ('id, 'd) TimeData list \<Rightarrow> nat list \<Rightarrow> RefSearch" where
  "ml_find_refs R infos dat ready =
     (let st = find_reference R dat ready ref_search_init
      in if found_ref st \<and> \<not> found_next_ref st then
           (case map_of infos R of
              Some estimator \<Rightarrow>
                st\<lparr> next_ref_meas_time := oldest_ref_meas_time st + period estimator \<rparr>
            | None \<Rightarrow> st)
         else st)"

text \<open>The loop over the ready indices: the map and \<open>latest_data_idx\<close>.\<close>

fun ml_match_ready ::
  "'id \<Rightarrow> Time \<Rightarrow> Time \<Rightarrow> ('id, 'd) TimeData list \<Rightarrow> nat list \<Rightarrow> 'id MatchingMap \<times> nat
   \<Rightarrow> 'id MatchingMap \<times> nat" where
  "ml_match_ready R t_ref t_next dat [] st = st"
| "ml_match_ready R t_ref t_next dat (ix # rest) (m, latest_data_idx) =
     (let element = dat ! ix in
      if id_src element = R then ml_match_ready R t_ref t_next dat rest (m, ix)
      else
        (let current_diff = \<bar>meas_time element - t_ref\<bar>;
             next_diff = \<bar>meas_time element - t_next\<bar>
         in if next_diff < current_diff then (m, ix)
            else ml_match_ready R t_ref t_next dat rest
                   (take_if_closer m (id_src element) ix current_diff, ix)))"

text \<open>The loop over the queue behind \<open>latest_data_idx\<close>: the map and \<open>found_better_sample\<close>.\<close>

fun ml_match_waiting ::
  "'id \<Rightarrow> Time \<Rightarrow> Time \<Rightarrow> ('id, 'd) TimeData list \<Rightarrow> 'id MatchingMap
   \<Rightarrow> 'id MatchingMap \<times> bool" where
  "ml_match_waiting R t_ref t_next [] m = (m, False)"
| "ml_match_waiting R t_ref t_next (element # rest) m =
     (if id_src element = R then ml_match_waiting R t_ref t_next rest m
      else
        (let current_diff = \<bar>meas_time element - t_ref\<bar>;
             next_diff = \<bar>meas_time element - t_next\<bar>
         in if next_diff < current_diff then (m, False)
            else if seconds current_diff < tau (map_at m (id_src element))
                 then (map_index m (id_src element), True)
                 else ml_match_waiting R t_ref t_next rest (map_index m (id_src element))))"

text \<open>The matching map and \<open>found_better_sample\<close> that \<^verbatim>\<open>runMatching\<close> computes once the
  reference is found; \<open>ready\<close> is the sorted list of ready indices.\<close>

definition ml_matching_scan ::
  "'id ML_Params \<Rightarrow> ('id \<times> Estimator) list \<Rightarrow> ('id, 'd) TimeData list \<Rightarrow> nat list
   \<Rightarrow> 'id MatchingMap \<times> bool" where
  "ml_matching_scan params infos dat ready =
     (let R = reference_stream (mlp_match params);
          st = ml_find_refs R infos dat ready
      in case ml_match_ready R (oldest_ref_meas_time st) (next_ref_meas_time st) dat ready
                ([(R, \<lparr> idx = ref_idx st, tau = 0 \<rparr>)], 0) of
           (m1, latest_data_idx) \<Rightarrow>
             ml_match_waiting R (oldest_ref_meas_time st) (next_ref_meas_time st)
               (drop (latest_data_idx + 1) dat) m1)"

definition ml_runMatching ::
  "('id MatchingMap \<Rightarrow> 'id MatchingMap) \<Rightarrow> 'id ML_Params \<Rightarrow> ('id \<times> Estimator) list
   \<Rightarrow> ('id, 'd) TimeData list \<Rightarrow> nat list \<Rightarrow> nat list \<times> nat list" where
  "ml_runMatching ord params infos dat ready_for_output_ids =
     (let ready = sort ready_for_output_ids;
          st = ml_find_refs (reference_stream (mlp_match params)) infos dat ready
      in if \<not> found_ref st then ([], [])
         else
           (case ml_matching_scan params infos dat ready of
              (matching_map, found_better_sample) \<Rightarrow>
                if length matching_map \<noteq> length infos then ([], [ref_idx st])
                else if found_better_sample then ([], [])
                else (map (\<lambda>map_entry. idx (snd map_entry)) (ord matching_map), [])))"

text \<open>The index lists after the mode step of \<^verbatim>\<open>pop\<close>:
  \<open>(output_inds, discard_inds, delete_inds)\<close>.\<close>

definition ml_select ::
  "('id MatchingMap \<Rightarrow> 'id MatchingMap) \<Rightarrow> ('id, 'd) MinimalLatencyBuffer \<Rightarrow> ('id, 'd) PopLoop
   \<Rightarrow> nat list \<times> nat list \<times> nat list" where
  "ml_select ord s acc =
     (if mlp_mode (ml_params s) = BATCH \<and> output_inds acc \<noteq> [] then
        (ml_runBatching (ml_params s) (p_data acc) (output_inds acc) (p_time acc),
         discard_inds acc, delete_inds acc)
      else if mlp_mode (ml_params s) = MATCH \<and> output_inds acc \<noteq> [] then
        (case ml_runMatching ord (ml_params s) (ml_source_infos s) (p_data acc) (output_inds acc) of
           (tuple_inds, del) \<Rightarrow> (tuple_inds, discard_inds acc @ del, delete_inds acc @ del))
      else (output_inds acc, discard_inds acc, delete_inds acc))"

definition pop_loop_init :: "Time \<Rightarrow> ('id, 'd) TimeData list \<Rightarrow> ('id, 'd) PopLoop" where
  "pop_loop_init t dat = \<lparr> p_time = t, output_inds = [], discard_inds = [], delete_inds = [],
                           cleaned_data = [], p_data = dat \<rparr>"

definition ml_pop ::
  "('id MatchingMap \<Rightarrow> 'id MatchingMap) \<Rightarrow> (real \<Rightarrow> real \<Rightarrow> real) \<Rightarrow> Time
   \<Rightarrow> ('id, 'd) MinimalLatencyBuffer \<Rightarrow> ('id, 'd) PopReturn \<times> ('id, 'd) MinimalLatencyBuffer" where
  "ml_pop ord Q t s =
     (if t < ml_current_time s
      then (\<lparr> pr_buffer_time = ml_buffer_time s, pr_data = [], pr_discarded_data = [] \<rparr>, s)
      else
        (let acc = ml_pop_loop Q s (ml_data s) 0 (pop_loop_init t (ml_data s)) in
         case ml_select ord s acc of
           (out_inds, dis_inds, del_inds) \<Rightarrow>
             (let output = map (\<lambda>ix. p_data acc ! ix) out_inds;
                  discarded = map (\<lambda>ix. p_data acc ! ix) dis_inds;
                  remaining = remove_indices (p_data acc) (del_inds @ out_inds);
                  bt = (if output \<noteq> [] then meas_time (last output) else ml_buffer_time s)
              in (\<lparr> pr_buffer_time = bt, pr_data = output, pr_discarded_data = discarded \<rparr>,
                  s\<lparr> ml_data := sort_by_meas_time (remaining @ cleaned_data acc),
                     ml_buffer_time := bt \<rparr>))))"

definition ml_getCurrentTime :: "('id, 'd) MinimalLatencyBuffer \<Rightarrow> Time" where
  "ml_getCurrentTime s = ml_current_time s"

definition ml_getBufferTime :: "('id, 'd) MinimalLatencyBuffer \<Rightarrow> Time" where
  "ml_getBufferTime s = ml_buffer_time s"

text \<open>The number of placeholders of one source in the queue.\<close>

definition num_placeholders :: "'id \<Rightarrow> ('id, 'd) TimeData list \<Rightarrow> nat" where
  "num_placeholders i dat = length (filter (\<lambda>e. id_src e = i \<and> is_placeholder e) dat)"

section \<open>Sequences of calls\<close>

text \<open>A buffer is driven by \<^verbatim>\<open>push(id, receipt_time, meas_time, data)\<close> and \<^verbatim>\<open>pop(time)\<close>;
  \<open>fl_run\<close> and \<open>ml_run\<close> apply a list of calls from left to right.\<close>

datatype ('id, 'd) Call = Push 'id Time Time 'd | Pop Time

fun fl_step ::
  "('id MatchingMap \<Rightarrow> 'id MatchingMap) \<Rightarrow> ('id, 'd) FixedLagBuffer \<Rightarrow> ('id, 'd) Call
   \<Rightarrow> ('id, 'd) FixedLagBuffer" where
  "fl_step ord s (Push i receipt_t meas_t d) = snd (fl_push i receipt_t meas_t d s)"
| "fl_step ord s (Pop t) = snd (fl_pop ord t s)"

definition fl_run ::
  "('id MatchingMap \<Rightarrow> 'id MatchingMap) \<Rightarrow> ('id, 'd) Call list \<Rightarrow> ('id, 'd) FixedLagBuffer
   \<Rightarrow> ('id, 'd) FixedLagBuffer" where
  "fl_run ord calls s = foldl (fl_step ord) s calls"

fun ml_step ::
  "('id MatchingMap \<Rightarrow> 'id MatchingMap) \<Rightarrow> (real \<Rightarrow> real \<Rightarrow> real)
   \<Rightarrow> ('id, 'd) MinimalLatencyBuffer \<Rightarrow> ('id, 'd) Call \<Rightarrow> ('id, 'd) MinimalLatencyBuffer" where
  "ml_step ord Q s (Push i receipt_t meas_t d) = snd (ml_push Q i receipt_t meas_t d s)"
| "ml_step ord Q s (Pop t) = snd (ml_pop ord Q t s)"

definition ml_run ::
  "('id MatchingMap \<Rightarrow> 'id MatchingMap) \<Rightarrow> (real \<Rightarrow> real \<Rightarrow> real) \<Rightarrow> ('id, 'd) Call list
   \<Rightarrow> ('id, 'd) MinimalLatencyBuffer \<Rightarrow> ('id, 'd) MinimalLatencyBuffer" where
  "ml_run ord Q calls s = foldl (ml_step ord Q) s calls"

text \<open>The indices of the reference stream among the ready indices, in order; and whether
  a sample lies closer to the next reference time than to the current one.\<close>

definition ready_refs :: "'id \<Rightarrow> ('id, 'd) TimeData list \<Rightarrow> nat list \<Rightarrow> nat list" where
  "ready_refs R dat ready = filter (\<lambda>ix. id_src (dat ! ix) = R) ready"

text \<open>The source, the measurement time and the payload of a record: what the flag update
  of \<open>pop\<close> leaves as it is.\<close>

definition sample_of :: "('id, 'd) TimeData \<Rightarrow> 'id \<times> Time \<times> 'd option" where
  "sample_of e = (id_src e, meas_time e, data e)"

definition better_for_next :: "Time \<Rightarrow> Time \<Rightarrow> ('id, 'd) TimeData \<Rightarrow> bool" where
  "better_for_next t_ref t_next element =
     (\<bar>meas_time element - t_next\<bar> < \<bar>meas_time element - t_ref\<bar>)"

section \<open>Configurations of the unit tests\<close>

definition ms :: "int \<Rightarrow> Duration" where
  "ms n = n * 10 ^ 6"

text \<open>The defaults of \<^verbatim>\<open>MinimalLatencyBuffer::Params\<close> with the settings of the test fixture
  (\<open>max_total_wait_time = 100ms\<close>, \<open>batch.max_delta = 10ms\<close>), for a mode and a reference
  stream.\<close>

definition test_ml_params :: "BufferMode \<Rightarrow> nat \<Rightarrow> nat ML_Params" where
  "test_ml_params m R =
     \<lparr> mlp_mode = m, mlp_reset_threshold = ms 1000,
       mlp_measurement_confidence_quantile = fl (99 / 100),
       mlp_max_abs_measurement_jitter = ms 100000,
       mlp_wait_confidence_quantile = fl (99 / 100),
       mlp_max_abs_wait_jitter = ms 100000,
       mlp_max_total_wait_time = ms 100,
       mlp_batch = \<lparr> max_delta = ms 10 \<rparr>,
       mlp_match = \<lparr> reference_stream = R, num_streams = 0 \<rparr> \<rparr>"

text \<open>A fixed-lag configuration without delay: \<open>delay_mean = 0\<close>, \<open>delay_stddev = 0\<close> (the
  quantile is then not computed), reference stream 50.\<close>

definition test_fl_params :: "BufferMode \<Rightarrow> nat \<Rightarrow> nat FL_Params" where
  "test_fl_params m n =
     \<lparr> flp_mode = m, flp_reset_threshold = 0, flp_delay_mean = 0, flp_delay_stddev = 0,
       flp_delay_quantile = 1 / 2, flp_batch = \<lparr> max_delta = ms 10 \<rparr>,
       flp_match = \<lparr> reference_stream = 50, num_streams = n \<rparr> \<rparr>"

text \<open>In the runs of the buffers below the estimators have variance zero, so that the
  quantile of the normal distribution is never computed; \<open>no_quantile\<close> stands for it. \<open>insertion_order\<close>
  and \<open>reverse_order\<close> are two iteration orders of the matching map.\<close>

definition no_quantile :: "real \<Rightarrow> real \<Rightarrow> real" where
  "no_quantile sd p = 0"

definition insertion_order :: "nat MatchingMap \<Rightarrow> nat MatchingMap" where
  "insertion_order m = m"

definition reverse_order :: "nat MatchingMap \<Rightarrow> nat MatchingMap" where
  "reverse_order m = rev m"

text \<open>A real sample without payload content, as the tests push it.\<close>

definition sample :: "nat \<Rightarrow> Time \<Rightarrow> Time \<Rightarrow> (nat, unit) TimeData" where
  "sample i meas_t receipt_t = new_element i meas_t receipt_t ()"

subsection \<open>Runs used as examples\<close>

text \<open>Fixed lag, BATCH (the lag is \<open>max_delta = 10ms\<close>): two samples of one source, 100ms
  apart; and two samples 5ms apart of which only the first is old enough.\<close>

definition batch_far_state :: "(nat, unit) FixedLagBuffer" where
  "batch_far_state =
     fl_run insertion_order [Push 50 (ms 110) (ms 100) (), Push 50 (ms 210) (ms 200) ()]
       (FixedLagBuffer_new no_quantile (test_fl_params BATCH 2))"

definition batch_near_state :: "(nat, unit) FixedLagBuffer" where
  "batch_near_state =
     fl_run insertion_order [Push 50 (ms 110) (ms 100) (), Push 100 (ms 115) (ms 105) ()]
       (FixedLagBuffer_new no_quantile (test_fl_params BATCH 2))"

text \<open>Minimal latency, MATCH on stream 50: the source sends at 0, 50 and 100ms, misses
  150ms and sends at 200ms; the first two samples have been popped.\<close>

definition missed_sample_state :: "(nat, unit) MinimalLatencyBuffer" where
  "missed_sample_state =
     ml_run insertion_order no_quantile
       [Push 50 (ms 10) 0 (), Pop (ms 10), Push 50 (ms 60) (ms 50) (), Pop (ms 60),
        Push 50 (ms 110) (ms 100) (), Push 50 (ms 210) (ms 200) ()]
       (MinimalLatencyBuffer_new (test_ml_params MATCH 50))"

text \<open>Minimal latency, MATCH on stream 50 with a second stream 100: one tuple has been
  released, then the reference stream sends again and stream 100 does not.\<close>

definition lone_reference_state :: "(nat, unit) MinimalLatencyBuffer" where
  "lone_reference_state =
     ml_run insertion_order no_quantile
       [Push 50 (ms 10) 0 (), Push 100 (ms 10) 0 (), Pop (ms 10), Push 50 (ms 60) (ms 50) ()]
       (MinimalLatencyBuffer_new (test_ml_params MATCH 50))"

text \<open>Fixed lag, MATCH on stream 50 with two streams: reference samples at 100ms and
  200ms, and a sample of stream 100 at 190ms.\<close>

definition late_partner_state :: "(nat, unit) FixedLagBuffer" where
  "late_partner_state =
     fl_run insertion_order
       [Push 50 (ms 110) (ms 100) (), Push 50 (ms 210) (ms 200) (), Push 100 (ms 200) (ms 190) ()]
       (FixedLagBuffer_new no_quantile (test_fl_params MATCH 2))"

text \<open>Minimal latency, SINGLE: a source with period 100ms and latency 10ms, which after
  the sample of 1100ms sends ten more samples 1ms apart.\<close>

definition burst_state :: "(nat, unit) MinimalLatencyBuffer" where
  "burst_state =
     ml_run insertion_order no_quantile
       [Push 50 (ms 810) (ms 800) (), Push 50 (ms 910) (ms 900) (), Push 50 (ms 1010) (ms 1000) (),
        Push 50 (ms 1110) (ms 1100) (), Push 50 (ms 1111) (ms 1101) (), Push 50 (ms 1112) (ms 1102) (),
        Push 50 (ms 1113) (ms 1103) (), Push 50 (ms 1114) (ms 1104) (), Push 50 (ms 1115) (ms 1105) (),
        Push 50 (ms 1116) (ms 1106) (), Push 50 (ms 1117) (ms 1107) (), Push 50 (ms 1118) (ms 1108) (),
        Push 50 (ms 1119) (ms 1109) (), Push 50 (ms 1120) (ms 1110) ()]
       (MinimalLatencyBuffer_new (test_ml_params SINGLE 50))"

text \<open>Minimal latency, SINGLE: stream 100 has been released at 5000ms; stream 50, with
  period 100ms, then delivers samples measured at 800, 900 and 1000ms.\<close>

definition late_source_state :: "(nat, unit) MinimalLatencyBuffer" where
  "late_source_state =
     ml_run insertion_order no_quantile
       [Push 100 (ms 5000) (ms 5000) (), Pop (ms 5000), Push 50 (ms 5010) (ms 800) (),
        Push 50 (ms 5110) (ms 900) (), Push 50 (ms 5210) (ms 1000) ()]
       (MinimalLatencyBuffer_new (test_ml_params SINGLE 50))"

text \<open>Minimal latency, SINGLE: two sources, one sample each.\<close>

definition two_sources_state :: "(nat, unit) MinimalLatencyBuffer" where
  "two_sources_state =
     ml_run insertion_order no_quantile
       [Push 50 (ms 60) (ms 50) (), Push 100 (ms 70) (ms 55) ()]
       (MinimalLatencyBuffer_new (test_ml_params SINGLE 50))"

text \<open>Minimal latency, SINGLE, the start of the unit test \<^verbatim>\<open>zeroLatency\<close>: stream 50 at 60ms
  has been released, stream 100 delivers a sample of the same measurement time.\<close>

definition zero_latency_state :: "(nat, unit) MinimalLatencyBuffer" where
  "zero_latency_state =
     ml_run insertion_order no_quantile
       [Push 50 (ms 60) (ms 60) (), Pop (ms 60), Push 100 (ms 60) (ms 60) ()]
       (MinimalLatencyBuffer_new (test_ml_params SINGLE 50))"

text \<open>Fixed lag, MATCH on stream 50 with three streams: one sample of each stream, the
  reference in the middle.\<close>

definition three_streams_state :: "(nat, unit) FixedLagBuffer" where
  "three_streams_state =
     fl_run insertion_order
       [Push 100 (ms 95) (ms 90) (), Push 50 (ms 105) (ms 100) (), Push 150 (ms 115) (ms 110) ()]
       (FixedLagBuffer_new no_quantile (test_fl_params MATCH 3))"

text \<open>Fixed lag, MATCH on stream 50 with two streams: a tuple at 100ms has been released;
  then stream 100 delivers an older sample of 90ms and the reference stream one of 110ms.\<close>

definition old_partner_state :: "(nat, unit) FixedLagBuffer" where
  "old_partner_state =
     fl_run insertion_order
       [Push 50 (ms 105) (ms 100) (), Push 100 (ms 105) (ms 100) (), Pop (ms 200),
        Push 100 (ms 210) (ms 90) (), Push 50 (ms 215) (ms 110) ()]
       (FixedLagBuffer_new no_quantile (test_fl_params MATCH 2))"

text \<open>A queue of three samples, and an estimator of stream 50 with period 50ms.\<close>

definition three_samples :: "(nat, unit) TimeData list" where
  "three_samples = [sample 50 (ms 100) (ms 110), sample 100 (ms 120) (ms 130),
                    sample 50 (ms 200) (ms 210)]"

definition estimator_50ms :: Estimator where
  "estimator_50ms = snd (update (ms 60) (ms 50) 0 (StreamCharacteristicsEstimator (ms 10) 0 default_alpha))"

text \<open>An estimator after three updates with irregular periods and latencies (constructed
  at receipt 10 of a sample measured at 0, then updated with receipt and measurement
  times 62/50, 113/101 and 165/150); and an estimator with eleven updates whose period
  mean is the double \<open>2684354774748365 / 2 ^ 28\<close>: five times this mean lies \<open>1 / 2 ^ 28\<close>
  above 50000004 and is rounded to 50000004.\<close>

definition irregular_estimator :: Estimator where
  "irregular_estimator =
     snd (update 165 150 0 (snd (update 113 101 0 (snd (update 62 50 0
       (StreamCharacteristicsEstimator 10 0 default_alpha))))))"

definition rounding_estimator :: Estimator where
  "rounding_estimator =
     \<lparr> num_updates = 11, last_meas_time = 0, est_current_time = 10, alpha = default_alpha,
       period_state = \<lparr> mean = 2684354774748365 / 2 ^ 28, variance = 0 \<rparr>,
       latency_state = \<lparr> mean = 10, variance = 0 \<rparr> \<rparr>"

text \<open>A fixed-lag and a minimal-latency buffer after one push.\<close>

definition fl_started :: "(nat, unit) FixedLagBuffer" where
  "fl_started = snd (fl_push 50 (ms 60) (ms 50) ()
                       (FixedLagBuffer_new no_quantile (test_fl_params SINGLE 2)))"

definition ml_started :: "(nat, unit) MinimalLatencyBuffer" where
  "ml_started = snd (ml_push no_quantile 50 (ms 5000) (ms 4990) ()
                       (MinimalLatencyBuffer_new (test_ml_params SINGLE 50)))"

text \<open>Fixed lag, BATCH: two samples 5ms apart and a third one 100ms after the first.\<close>

definition batch_mixed_state :: "(nat, unit) FixedLagBuffer" where
  "batch_mixed_state =
     fl_run insertion_order
       [Push 50 (ms 110) (ms 100) (), Push 100 (ms 115) (ms 105) (), Push 50 (ms 210) (ms 200) ()]
       (FixedLagBuffer_new no_quantile (test_fl_params BATCH 2))"

text \<open>Minimal latency, MATCH on stream 50, the matching map iterated in reverse insertion
  order: the reference stream delivers a sample of 50ms and stream 100 one of 55ms. In
  the second state this pair has been popped, a third stream 150 has delivered a sample
  of 52ms, and the two other streams samples of 100ms and 105ms.\<close>

definition match_pair_state :: "(nat, unit) MinimalLatencyBuffer" where
  "match_pair_state =
     ml_run reverse_order no_quantile
       [Push 50 (ms 60) (ms 50) (), Push 100 (ms 65) (ms 55) ()]
       (MinimalLatencyBuffer_new (test_ml_params MATCH 50))"

definition match_followup_state :: "(nat, unit) MinimalLatencyBuffer" where
  "match_followup_state =
     ml_run reverse_order no_quantile
       [Pop (ms 65), Push 150 (ms 70) (ms 52) (), Push 50 (ms 110) (ms 100) (),
        Push 100 (ms 115) (ms 105) ()]
       match_pair_state"

text \<open>The definitions that evaluate a concrete run.\<close>

lemma bit_length_0: "bit_length 0 = 0"
  by (simp add: bit_length.simps)

lemma bit_length_pos: "0 < n \<Longrightarrow> bit_length n = Suc (bit_length (n div 2))"
  by (subst bit_length.simps) simp

text \<open>The rounding of a literal; a concrete run is evaluated with these equations, from
  the inside out.\<close>

lemma fl_literal:
  "fl 0 = 0"
  "fl 1 = of_int (round_even (1 / pow2 (quantum 1))) * pow2 (quantum 1)"
  "fl (- 1) = of_int (round_even (- 1 / pow2 (quantum (- 1)))) * pow2 (quantum (- 1))"
  "fl (numeral a) =
     of_int (round_even (numeral a / pow2 (quantum (numeral a)))) * pow2 (quantum (numeral a))"
  "fl (- numeral a) =
     of_int (round_even (- numeral a / pow2 (quantum (- numeral a)))) * pow2 (quantum (- numeral a))"
  "fl (numeral a / numeral b) =
     of_int (round_even (numeral a / numeral b / pow2 (quantum (numeral a / numeral b))))
       * pow2 (quantum (numeral a / numeral b))"
  "fl (- (numeral a / numeral b)) =
     of_int (round_even (- (numeral a / numeral b) / pow2 (quantum (- (numeral a / numeral b)))))
       * pow2 (quantum (- (numeral a / numeral b)))"
  "fl (1 / numeral b) =
     of_int (round_even (1 / numeral b / pow2 (quantum (1 / numeral b))))
       * pow2 (quantum (1 / numeral b))"
  "fl (- (1 / numeral b)) =
     of_int (round_even (- (1 / numeral b) / pow2 (quantum (- (1 / numeral b)))))
       * pow2 (quantum (- (1 / numeral b)))"
  by (simp_all add: fl_def)

lemmas double_defs = bit_length_0 bit_length_pos pow2_def exponent_of_def round_even_def
  quantum_def fl_literal dadd_def dsub_def dmul_def ddiv_def dsqrt_def dhypot_def
  double_of_int_def double_of_nat_def default_alpha_def wrap64_def Let_def

lemma placeholders_loop_pos:
  "0 < n \<Longrightarrow>
   placeholders_loop Q params estimator bt i meas_t n k =
     (let placeholder = createPlaceholder Q params estimator i meas_t k
      in if earliest_estimated_meas_time placeholder > bt
         then [placeholder\<lparr> created_placeholder := False \<rparr>]
         else placeholder\<lparr> created_placeholder := True \<rparr>
              # placeholders_loop Q params estimator bt i meas_t (n - 1) (k + 1))"
  by (cases n) (simp_all add: Let_def)

lemmas model_defs = double_defs placeholders_loop_pos is_placeholder_def DBL_MAX_def sort_by_meas_time_def move_block_def
  remove_indices_def trunc_def StreamCharacteristicsEstimator_def latency_def latency_stddev_def
  period_def period_stddev_def isInitialized_def updateEstimates_def corrected_estimate_def
  updatePeriodEstimate_def updateLatencyEstimate_def update_def updateLatencyOnly_def
  default_entry_def map_index_def map_at_def seconds_def take_if_closer_def ref_search_init_def
  DBL_EPSILON_def FixedLagBuffer_new_def fl_reset_def new_element_def fl_push_def fl_batch_def
  fl_search_queue_def fl_find_refs_def fl_matching_scan_def fl_runMatching_def fl_select_def
  fl_pop_def fl_run_def ml_run_def ml_matching_scan_def ready_refs_def better_for_next_def
  MAX_INSERTED_PLACEHOLDERS_def MinimalLatencyBuffer_new_def ml_reset_def clamp_def
  createPlaceholder_def create_placeholders_def half_def push_insert_def push_update_estimator_def
  stale_placeholder_def ml_push_def pop_visit_def ml_runBatching_def ml_find_refs_def
  ml_runMatching_def ml_select_def pop_loop_init_def ml_pop_def num_placeholders_def
  sample_of_def ms_def test_ml_params_def test_fl_params_def no_quantile_def insertion_order_def
  reverse_order_def sample_def Let_def

section \<open>Bounds of the binary64 rounding\<close>

text \<open>\<open>exponent_of x\<close> is the binary exponent of \<open>x\<close>, and the rounded value lies within half
  a unit in the last place of the exact one.\<close>

lemma bit_length_upper: "n < 2 ^ bit_length n"
proof (induction n rule: bit_length.induct)
  case (1 n)
  show ?case
  proof (cases "n = 0")
    case True
    then show ?thesis by (simp add: bit_length_0)
  next
    case False
    then have "n div 2 < 2 ^ bit_length (n div 2)" using 1 by simp
    then have "n < 2 * 2 ^ bit_length (n div 2)" by linarith
    then show ?thesis using False by (simp add: bit_length_pos)
  qed
qed

lemma bit_length_lower: "0 < n \<Longrightarrow> 2 ^ (bit_length n - 1) \<le> n"
proof (induction n rule: bit_length.induct)
  case (1 n)
  show ?case
  proof (cases "n div 2 = 0")
    case True
    then have "n = 1" using 1(2) by linarith
    then show ?thesis by (simp add: bit_length_pos bit_length_0)
  next
    case False
    then have ih: "2 ^ (bit_length (n div 2) - 1) \<le> n div 2" using 1 by simp
    have pos: "0 < bit_length (n div 2)" using False by (simp add: bit_length_pos)
    have "bit_length n = Suc (bit_length (n div 2))" using 1(2) by (simp add: bit_length_pos)
    then have "(2::nat) ^ (bit_length n - 1) = 2 * 2 ^ (bit_length (n div 2) - 1)"
      using pos by (cases "bit_length (n div 2)") simp_all
    also have "\<dots> \<le> 2 * (n div 2)" using ih by simp
    also have "\<dots> \<le> n" by simp
    finally show ?thesis .
  qed
qed

lemma pow2_pos: "0 < pow2 k"
  by (simp add: pow2_def)

lemma pow2_mono: "a \<le> b \<Longrightarrow> pow2 a \<le> pow2 b"
  unfolding pow2_def
  by (auto simp: field_simps power_increasing intro: order_trans[of _ 1]
      simp flip: power_add)

lemma pow2_exponent_of_le:
  assumes "x \<noteq> 0"
  shows "pow2 (exponent_of x) \<le> \<bar>x\<bar>"
proof (cases "1 \<le> \<bar>x\<bar>")
  case True
  define n where "n = nat \<lfloor>\<bar>x\<bar>\<rfloor>"
  have n: "0 < n" using True by (simp add: n_def)
  have "real n \<le> \<bar>x\<bar>" unfolding n_def using True by (simp; linarith)
  moreover have "(2::nat) ^ (bit_length n - 1) \<le> n" using bit_length_lower [OF n] .
  then have "(2::real) ^ (bit_length n - 1) \<le> real n"
    by (metis of_nat_le_iff of_nat_numeral of_nat_power)
  moreover have "0 < bit_length n" using n by (simp add: bit_length_pos)
  then have "pow2 (exponent_of x) = 2 ^ (bit_length n - 1)"
    using True by (simp add: exponent_of_def pow2_def n_def nat_diff_distrib')
  ultimately show ?thesis by linarith
next
  case False
  define m where "m = nat (\<lceil>1 / \<bar>x\<bar>\<rceil> - 1)"
  have "1 / \<bar>x\<bar> \<le> of_int \<lceil>1 / \<bar>x\<bar>\<rceil>" by linarith
  moreover have "0 < \<lceil>1 / \<bar>x\<bar>\<rceil>" using assms by simp
  then have "of_int \<lceil>1 / \<bar>x\<bar>\<rceil> = real m + 1" unfolding m_def by simp
  moreover have "m < 2 ^ bit_length m" by (rule bit_length_upper)
  then have "m + 1 \<le> 2 ^ bit_length m" by simp
  then have "real m + 1 \<le> 2 ^ bit_length m"
    by (metis of_nat_le_iff of_nat_numeral of_nat_power of_nat_add of_nat_1)
  ultimately have "1 / \<bar>x\<bar> \<le> 2 ^ bit_length m" by linarith
  then have "1 / 2 ^ bit_length m \<le> \<bar>x\<bar>"
    using assms by (simp add: field_simps)
  moreover have "pow2 (exponent_of x) = 1 / 2 ^ bit_length m"
    using False by (simp add: exponent_of_def pow2_def m_def)
  ultimately show ?thesis by simp
qed

lemma exponent_of_upper:
  assumes "x \<noteq> 0"
  shows "\<bar>x\<bar> < pow2 (exponent_of x + 1)"
proof (cases "1 \<le> \<bar>x\<bar>")
  case True
  define n where "n = nat \<lfloor>\<bar>x\<bar>\<rfloor>"
  have "\<bar>x\<bar> < real n + 1" unfolding n_def using True by (simp; linarith)
  moreover have "n < 2 ^ bit_length n" by (rule bit_length_upper)
  then have "n + 1 \<le> 2 ^ bit_length n" by simp
  then have "real n + 1 \<le> 2 ^ bit_length n"
    by (metis of_nat_le_iff of_nat_numeral of_nat_power of_nat_add of_nat_1)
  moreover have "pow2 (exponent_of x + 1) = 2 ^ bit_length n"
    using True by (simp add: exponent_of_def pow2_def n_def)
  ultimately show ?thesis by linarith
next
  case False
  define m where "m = nat (\<lceil>1 / \<bar>x\<bar>\<rceil> - 1)"
  have big: "1 < 1 / \<bar>x\<bar>" using False assms by simp
  then have c: "2 \<le> \<lceil>1 / \<bar>x\<bar>\<rceil>" by linarith
  then have m: "0 < m" unfolding m_def by simp
  have "real_of_int (\<lceil>1 / \<bar>x\<bar>\<rceil> - 1) < 1 / \<bar>x\<bar>" by linarith
  moreover have "0 \<le> \<lceil>1 / \<bar>x\<bar>\<rceil> - 1" using c by linarith
  then have "real m = real_of_int (\<lceil>1 / \<bar>x\<bar>\<rceil> - 1)" unfolding m_def by (rule of_nat_nat)
  ultimately have lt: "real m < 1 / \<bar>x\<bar>" by simp
  have "(2::nat) ^ (bit_length m - 1) \<le> m" using bit_length_lower [OF m] .
  then have "(2::real) ^ (bit_length m - 1) \<le> real m"
    by (metis of_nat_le_iff of_nat_numeral of_nat_power)
  then have "(2::real) ^ (bit_length m - 1) < 1 / \<bar>x\<bar>" using lt by linarith
  then have "\<bar>x\<bar> < 1 / 2 ^ (bit_length m - 1)"
    using assms by (simp add: field_simps)
  moreover have "0 < bit_length m" using m by (simp add: bit_length_pos)
  then have "pow2 (exponent_of x + 1) = 1 / 2 ^ (bit_length m - 1)"
    using False by (simp add: exponent_of_def pow2_def m_def nat_diff_distrib')
  ultimately show ?thesis by simp
qed

lemma round_even_near: "\<bar>of_int (round_even y) - y\<bar> \<le> 1 / 2"
  unfolding round_even_def Let_def by (auto split: if_splits; linarith)

lemma pow2_quantum_le:
  assumes "x \<noteq> 0"
  shows "pow2 (quantum x) \<le> \<bar>x\<bar> + 1"
proof -
  have "pow2 (exponent_of x - 52) \<le> pow2 (exponent_of x)" by (rule pow2_mono) simp
  then have a: "pow2 (exponent_of x - 52) \<le> \<bar>x\<bar>"
    using pow2_exponent_of_le [OF assms] by linarith
  have b: "pow2 (- 1074) \<le> 1" by (simp add: pow2_def)
  show ?thesis unfolding quantum_def max_def using a b by auto
qed

text \<open>The rounded value is a multiple of \<open>2 ^ quantum x\<close> within half of it of \<open>x\<close>.\<close>

lemma fl_error: "\<bar>fl x - x\<bar> \<le> pow2 (quantum x) / 2"
proof (cases "x = 0")
  case True
  then show ?thesis using pow2_pos [of "quantum 0"] by (simp add: fl_def)
next
  case False
  define q where "q = pow2 (quantum x)"
  have q: "0 < q" unfolding q_def by (rule pow2_pos)
  have "\<bar>of_int (round_even (x / q)) - x / q\<bar> \<le> 1 / 2" by (rule round_even_near)
  then have "\<bar>of_int (round_even (x / q)) - x / q\<bar> * q \<le> 1 / 2 * q"
    using q by (intro mult_right_mono) auto
  moreover have "of_int (round_even (x / q)) * q - x = (of_int (round_even (x / q)) - x / q) * q"
    using q by (simp add: field_simps)
  then have "\<bar>of_int (round_even (x / q)) - x / q\<bar> * q = \<bar>of_int (round_even (x / q)) * q - x\<bar>"
    using q by (simp add: abs_mult)
  ultimately have "\<bar>of_int (round_even (x / q)) * q - x\<bar> \<le> q / 2" by simp
  moreover have "fl x = of_int (round_even (x / q)) * q" using False by (simp add: fl_def q_def)
  ultimately show ?thesis unfolding q_def by simp
qed

lemma fl_bound: "\<bar>fl x\<bar> \<le> 2 * \<bar>x\<bar> + 1"
proof (cases "x = 0")
  case True
  then show ?thesis by (simp add: fl_def)
next
  case False
  have "pow2 (quantum x) \<le> \<bar>x\<bar> + 1" by (rule pow2_quantum_le [OF False])
  then show ?thesis using fl_error [of x] by linarith
qed

section \<open>remove_indices removes exactly the given positions\<close>

lemma move_block_upt:
  "block_end \<le> length vec \<Longrightarrow>
   move_block vec block_start block_end = map ((!) vec) [block_start ..< block_end]"
  unfolding move_block_def
  by (rule nth_equalityI) auto

lemma nths_filter_upt:
  "nths xs A = map ((!) xs) (filter (\<lambda>i. i \<in> A) [0 ..< length xs])"
proof -
  have "zip xs [0 ..< length xs] = map (\<lambda>i. (xs ! i, i)) [0 ..< length xs]"
    by (rule nth_equalityI) auto
  then show ?thesis
    by (simp add: nths_def filter_map comp_def)
qed

lemma upt_split: "a \<le> b \<Longrightarrow> b \<le> c \<Longrightarrow> [a ..< c] = [a ..< b] @ [b ..< c]"
  using upt_add_eq_append[of a b "c - b"] by simp

lemma sorted_le_last: "sorted (xs :: nat list) \<Longrightarrow> x \<in> set xs \<Longrightarrow> x \<le> last xs"
  by (induction xs) auto

text \<open>The loop invariant: on sorted indices that are not below \<open>block_start - 1\<close>, the loop
  appends the surviving positions between \<open>block_start\<close> and the last index.\<close>

lemma remove_indices_loop_eq:
  "sorted inds \<Longrightarrow> \<forall>j\<in>set inds. block_start \<le> j + 1 \<and> j < length vec \<Longrightarrow>
   remove_indices_loop vec inds block_start out =
     (out @ map ((!) vec) (filter (\<lambda>k. k \<notin> set inds)
                [block_start ..< (if inds = [] then block_start else last inds + 1)]),
      (if inds = [] then block_start else last inds + 1))"
proof (induction inds arbitrary: block_start out)
  case Nil
  then show ?case by simp
next
  case (Cons i inds)
  define m where "m = (if inds = [] then i + 1 else last inds + 1)"
  define out' where "out' = out @ map ((!) vec) [block_start ..< i]"
  have m_eq: "(if i # inds = [] then block_start else last (i # inds) + 1) = m"
    by (simp add: m_def)
  have i: "block_start \<le> i + 1" "i < length vec" using Cons.prems by auto
  have le: "\<forall>j\<in>set inds. i \<le> j" using Cons.prems(1) by auto
  have m: "i + 1 \<le> m" using le by (auto simp: m_def)
  have out: "(if block_start \<noteq> i then out @ move_block vec block_start i else out) = out'"
    using i by (simp add: move_block_upt out'_def)
  have IH: "remove_indices_loop vec inds (i + 1) out' =
     (out' @ map ((!) vec) (filter (\<lambda>k. k \<notin> set inds) [i + 1 ..< m]), m)"
    unfolding m_def using Cons.IH[of "i + 1" out'] Cons.prems le by auto
  have same: "filter (\<lambda>k. k \<notin> set (i # inds)) [i + 1 ..< m]
      = filter (\<lambda>k. k \<notin> set inds) [i + 1 ..< m]"
    by (rule filter_cong) auto
  have split: "filter (\<lambda>k. k \<notin> set (i # inds)) [block_start ..< m]
      = [block_start ..< i] @ filter (\<lambda>k. k \<notin> set inds) [i + 1 ..< m]"
  proof (cases "block_start \<le> i")
    case True
    have "[block_start ..< m] = [block_start ..< i] @ [i ..< m]"
      using True m by (intro upt_split) auto
    moreover have "[i ..< m] = i # [i + 1 ..< m]"
      using m by (simp add: upt_conv_Cons)
    moreover have "filter (\<lambda>k. k \<notin> set (i # inds)) [block_start ..< i] = [block_start ..< i]"
      using le by (auto simp: filter_id_conv)
    ultimately show ?thesis using same by simp
  next
    case False
    then have bs: "block_start = i + 1" using i by simp
    show ?thesis using same by (simp add: bs)
  qed
  have "remove_indices_loop vec (i # inds) block_start out
      = remove_indices_loop vec inds (i + 1) out'"
    using out by simp
  also have "\<dots> = (out @ map ((!) vec)
       ([block_start ..< i] @ filter (\<lambda>k. k \<notin> set inds) [i + 1 ..< m]), m)"
    unfolding IH by (simp add: out'_def)
  finally show ?case
    unfolding m_eq split .
qed

lemma remove_indices_filter:
  assumes "set inds \<subseteq> {..< length vec}"
  shows "remove_indices vec inds
       = map ((!) vec) (filter (\<lambda>k. k \<notin> set inds) [0 ..< length vec])"
proof (cases "inds = []")
  case True
  then show ?thesis by (simp add: remove_indices_def map_nth)
next
  case False
  let ?s = "sort inds"
  have ne: "?s \<noteq> []" using False by (metis length_0_conv length_sort)
  have lt: "\<forall>j\<in>set ?s. 0 \<le> j + 1 \<and> j < length vec" using assms by auto
  have last: "last ?s < length vec" using ne lt last_in_set by blast
  have loop: "remove_indices_loop vec ?s 0 [] =
      (map ((!) vec) (filter (\<lambda>k. k \<notin> set inds) [0 ..< last ?s + 1]), last ?s + 1)"
    using remove_indices_loop_eq[of ?s 0 vec "[]"] lt ne by simp
  have tail: "filter (\<lambda>k. k \<notin> set inds) [last ?s + 1 ..< length vec]
      = [last ?s + 1 ..< length vec]"
  proof -
    have "\<forall>j\<in>set ?s. j \<le> last ?s"
      using sorted_sort[of inds] sorted_le_last by blast
    then show ?thesis by (auto simp: filter_id_conv)
  qed
  have upt: "[0 ..< length vec] = [0 ..< last ?s + 1] @ [last ?s + 1 ..< length vec]"
    using last by (intro upt_split) auto
  have "remove_indices vec inds =
      map ((!) vec) (filter (\<lambda>k. k \<notin> set inds) [0 ..< last ?s + 1])
      @ map ((!) vec) [last ?s + 1 ..< length vec]"
    using False loop last by (simp add: remove_indices_def move_block_upt del: upt_Suc)
  also have "\<dots> = map ((!) vec) (filter (\<lambda>k. k \<notin> set inds) [0 ..< length vec])"
  proof -
    have "map ((!) vec) (filter (\<lambda>k. k \<notin> set inds) [0 ..< length vec])
        = map ((!) vec) (filter (\<lambda>k. k \<notin> set inds)
            ([0 ..< last ?s + 1] @ [last ?s + 1 ..< length vec]))"
      using upt by simp
    then show ?thesis using tail by (simp del: upt_Suc)
  qed
  finally show ?thesis .
qed

text \<open>
  Claim C3. For every vector and every list of indices into it, in any order and with or
  without duplicates, \<open>remove_indices\<close> returns the elements at the positions that are not
  in the list, in their original order (\<open>nths vec A\<close> is the sublist of \<open>vec\<close> at the
  positions in \<open>A\<close>).
\<close>

theorem remove_indices_removes_exactly:
  assumes "set inds \<subseteq> {..< length vec}"
  shows "remove_indices vec inds = nths vec (- set inds)"
  using remove_indices_filter[OF assms] by (simp add: nths_filter_upt)

theorem remove_indices_removes_exactly_witness:
  "set [3, 1, 3, 0] \<subseteq> {..< length ''abcde''} \<and> remove_indices ''abcde'' [3, 1, 3, 0] = ''ce''"
  using remove_indices_removes_exactly[of "[3, 1, 3, 0]" "''abcde''"]
  by (simp add: nths_Cons)

section \<open>The estimator and the desync error\<close>

lemma irregular_estimator_eq:
  "irregular_estimator =
     \<lparr> num_updates = 3, last_meas_time = 150, est_current_time = 165,
       alpha = 3602879701896397 / 2 ^ 56,
       period_state = \<lparr> mean = 7036522574045511 / 2 ^ 47, variance = 4107817662617663 / 2 ^ 52 \<rparr>,
       latency_state = \<lparr> mean = 2937261750719873 / 2 ^ 48, variance = 2548267519846025 / 2 ^ 49 \<rparr> \<rparr>"
  by (simp add: irregular_estimator_def model_defs)

text \<open>
  Claim C5. For an estimator with at least two updates, \<open>update\<close> throws EstimatorDesync
  exactly when the corrected estimate is negative and \<open>num_updates > 10\<close>; the estimator is
  then as it was. When the corrected estimate is negative and \<open>num_updates \<le> 10\<close>, the period
  state stays, and the latency update, the new anchors and the increment of \<open>num_updates\<close>
  take place; when it is not negative, the period state is updated with it as well. The
  corrected estimate is the one the code computes: \<open>est_period\<close> is the 64-bit difference
  \<open>meas_time - last_meas_time\<close> converted to a double, the product with \<open>num_missing\<close> and
  the difference are rounded binary64 operations.
\<close>

theorem update_desync:
  assumes "num_updates e \<ge> 2"
  shows "let est_period = double_of_int (wrap64 (m - last_meas_time e));
             est_latency = double_of_int (wrap64 (c - m));
             corrected = dsub est_period (dmul (double_of_nat n) (mean (period_state e)));
             e' = e\<lparr> latency_state := updateEstimates (alpha e) (latency_state e) est_latency True,
                      last_meas_time := m, est_current_time := c,
                      num_updates := num_updates e + 1 \<rparr>
         in (fst (update c m n e) = Some EstimatorDesync \<longleftrightarrow> corrected < 0 \<and> num_updates e > 10)
          \<and> (fst (update c m n e) = None \<longleftrightarrow> \<not> (corrected < 0 \<and> num_updates e > 10))
          \<and> (corrected < 0 \<and> num_updates e > 10 \<longrightarrow> snd (update c m n e) = e)
          \<and> (corrected < 0 \<and> num_updates e \<le> 10 \<longrightarrow> update c m n e = (None, e'))
          \<and> (0 \<le> corrected \<longrightarrow>
               update c m n e =
                 (None, e'\<lparr> period_state :=
                              updateEstimates (alpha e) (period_state e) corrected True \<rparr>))"
  using assms
  by (auto simp: update_def updatePeriodEstimate_def updateLatencyEstimate_def
        corrected_estimate_def Let_def)

theorem update_desync_witness:
  "num_updates irregular_estimator \<ge> 2
   \<and> update 260 200 1 irregular_estimator
      = (None,
         \<lparr> num_updates = 4, last_meas_time = 200, est_current_time = 260,
           alpha = 3602879701896397 / 2 ^ 56,
           period_state = \<lparr> mean = 104448656836395 / 2 ^ 41, variance = 4207796307707871 / 2 ^ 45 \<rparr>,
           latency_state = \<lparr> mean = 7269647186631695 / 2 ^ 49, variance = 532127835825707 / 2 ^ 42 \<rparr> \<rparr>)
   \<and> update 260 200 2 irregular_estimator
      = (None,
         \<lparr> num_updates = 4, last_meas_time = 200, est_current_time = 260,
           alpha = 3602879701896397 / 2 ^ 56,
           period_state = \<lparr> mean = 7036522574045511 / 2 ^ 47, variance = 4107817662617663 / 2 ^ 52 \<rparr>,
           latency_state = \<lparr> mean = 7269647186631695 / 2 ^ 49, variance = 532127835825707 / 2 ^ 42 \<rparr> \<rparr>)
   \<and> update 260 200 2 (irregular_estimator\<lparr> num_updates := 11 \<rparr>)
      = (Some EstimatorDesync, irregular_estimator\<lparr> num_updates := 11 \<rparr>)
   \<and> fst (update 50000014 50000004 5 rounding_estimator) = None
   \<and> update 50000013 50000003 5 rounding_estimator = (Some EstimatorDesync, rounding_estimator)"
  using update_desync [where c = 260 and m = 200 and n = 1 and e = irregular_estimator]
    update_desync [where c = 260 and m = 200 and n = 2 and e = irregular_estimator]
    update_desync [where c = 260 and m = 200 and n = 2
      and e = "irregular_estimator\<lparr> num_updates := 11 \<rparr>"]
    update_desync [where c = 50000014 and m = 50000004 and n = 5 and e = rounding_estimator]
    update_desync [where c = 50000013 and m = 50000003 and n = 5 and e = rounding_estimator]
  by (simp add: irregular_estimator_eq rounding_estimator_def model_defs prod_eq_iff)

section \<open>The reset rule of push\<close>

lemma wrap64_id: "time_ok x \<Longrightarrow> wrap64 x = x"
  unfolding time_ok_def wrap64_def by (simp add: mod_pos_pos_trivial)

text \<open>The test of \<open>push\<close> on the wrapped difference, for every input.\<close>

lemma push_reset_wrap:
  "fst (fl_push i receipt_t meas_t d s) =
     (if wrap64 (fl_current_time s - receipt_t) > flp_reset_threshold (fl_params s)
      then RESET else OK)
   \<and> fst (ml_push Q i receipt_t meas_t d s') =
     (if wrap64 (ml_current_time s' - receipt_t) > mlp_reset_threshold (ml_params s')
      then RESET else OK)"
  by (simp add: fl_push_def ml_push_def Let_def split: option.splits prod.splits)

text \<open>
  Claim C4. In both buffers, when the difference \<open>current_time - receipt_time\<close> at entry
  is in the 64-bit range of a duration, \<open>push\<close> returns RESET exactly when
  \<open>current_time - receipt_time > reset_threshold\<close>, and OK otherwise. On RESET the queue
  is empty afterwards (the sample is not in it), \<open>buffer_time\<close> and \<open>current_time\<close> are
  zero, and the minimal-latency buffer has no estimators.
\<close>

theorem push_reset:
  assumes "time_ok (fl_current_time s - receipt_t)"
      and "time_ok (ml_current_time s' - receipt_t)"
  shows "fst (fl_push i receipt_t meas_t d s) =
     (if fl_current_time s - receipt_t > flp_reset_threshold (fl_params s) then RESET else OK)
   \<and> (fl_current_time s - receipt_t > flp_reset_threshold (fl_params s) \<longrightarrow>
        snd (fl_push i receipt_t meas_t d s)
          = s\<lparr> fl_data := [], fl_buffer_time := 0, fl_current_time := 0 \<rparr>)
   \<and> fst (ml_push Q i receipt_t meas_t d s') =
     (if ml_current_time s' - receipt_t > mlp_reset_threshold (ml_params s') then RESET else OK)
   \<and> (ml_current_time s' - receipt_t > mlp_reset_threshold (ml_params s') \<longrightarrow>
        snd (ml_push Q i receipt_t meas_t d s')
          = s'\<lparr> ml_data := [], ml_buffer_time := 0, ml_current_time := 0,
                ml_source_infos := [] \<rparr>)"
  using assms
  by (simp add: wrap64_id fl_push_def fl_reset_def ml_push_def ml_reset_def Let_def
           split: option.splits prod.splits)

theorem push_reset_witness:
  "time_ok (fl_current_time fl_started - (- 1))
   \<and> time_ok (ml_current_time ml_started - ms 60)
   \<and> fl_data fl_started = [sample 50 (ms 50) (ms 60)]
   \<and> ml_data ml_started = [sample 50 (ms 4990) (ms 5000)]
   \<and> ml_current_time ml_started = ms 5000
   \<and> fl_push (50::nat) (- 1) (ms 100) () fl_started
      = (RESET, FixedLagBuffer_new no_quantile (test_fl_params SINGLE 2))
   \<and> ml_push no_quantile (50::nat) (ms 60) (ms 50) () ml_started
      = (RESET, MinimalLatencyBuffer_new (test_ml_params SINGLE 50))
   \<and> time_ok (fl_current_time fl_started - ms 70)
   \<and> time_ok (ml_current_time ml_started - ms 4000)
   \<and> fst (fl_push (100::nat) (ms 70) (ms 65) () fl_started) = OK
   \<and> fl_data (snd (fl_push (100::nat) (ms 70) (ms 65) () fl_started))
      = [sample 50 (ms 50) (ms 60), sample 100 (ms 65) (ms 70)]
   \<and> fst (ml_push no_quantile (100::nat) (ms 4000) (ms 3990) () ml_started) = OK
   \<and> ml_data (snd (ml_push no_quantile (100::nat) (ms 4000) (ms 3990) () ml_started))
      = [sample 100 (ms 3990) (ms 4000), sample 50 (ms 4990) (ms 5000)]"
  using push_reset [where i = "50::nat" and receipt_t = "- 1" and meas_t = "ms 100" and d = "()"
      and s = fl_started and Q = no_quantile and s' = ml_started]
    push_reset [where i = "50::nat" and receipt_t = "ms 60" and meas_t = "ms 50" and d = "()"
      and s = fl_started and Q = no_quantile and s' = ml_started]
    push_reset [where i = "100::nat" and receipt_t = "ms 70" and meas_t = "ms 65" and d = "()"
      and s = fl_started and Q = no_quantile and s' = ml_started]
    push_reset [where i = "100::nat" and receipt_t = "ms 4000" and meas_t = "ms 3990" and d = "()"
      and s = fl_started and Q = no_quantile and s' = ml_started]
  by (simp add: fl_started_def ml_started_def time_ok_def model_defs prod_eq_iff)

text \<open>Outside that range the subtraction overflows: with \<open>receipt_time = - 2 ^ 63\<close> the
  difference is above the threshold, the wrapped difference is not, and \<open>push\<close> returns
  OK.\<close>

lemma push_beyond_int64:
  "\<not> time_ok (fl_current_time fl_started - (- (2 ^ 63)))
   \<and> flp_reset_threshold (fl_params fl_started) < fl_current_time fl_started - (- (2 ^ 63))
   \<and> fst (fl_push (50::nat) (- (2 ^ 63)) (ms 100) () fl_started) = OK
   \<and> \<not> time_ok (ml_current_time ml_started - (- (2 ^ 63)))
   \<and> mlp_reset_threshold (ml_params ml_started) < ml_current_time ml_started - (- (2 ^ 63))
   \<and> fst (ml_push no_quantile (50::nat) (- (2 ^ 63)) (ms 100) () ml_started) = OK"
  by (simp add: fl_started_def ml_started_def time_ok_def model_defs)

section \<open>pop does not touch current_time\<close>

text \<open>
  Claim C10. For every buffer state and every time \<open>now\<close>, \<open>getCurrentTime()\<close> after
  \<open>pop(now)\<close> is what it was before, in the fixed-lag and in the minimal-latency buffer.
\<close>

theorem pop_keeps_current_time:
  "fl_getCurrentTime (snd (fl_pop ord t s)) = fl_getCurrentTime s
   \<and> ml_getCurrentTime (snd (ml_pop ord Q t s')) = ml_getCurrentTime s'"
  by (simp add: fl_getCurrentTime_def ml_getCurrentTime_def fl_pop_def ml_pop_def Let_def
           split: prod.splits)

section \<open>The batch step of the fixed-lag buffer\<close>

lemma map_nth_filter_upt:
  "map ((!) xs) (filter (\<lambda>ix. P (xs ! ix)) [a ..< length xs]) = filter P (drop a xs)"
proof -
  have "drop a xs = map ((!) xs) [a ..< length xs]"
    by (rule nth_equalityI) auto
  then show ?thesis by (simp add: filter_map comp_def)
qed

text \<open>The first scan of \<open>pop\<close>: the discarded positions are those at or below
  \<open>buffer_time\<close>, the ready positions lie above it; both are positions of the queue.\<close>

lemma fl_scan_dis:
  "fl_scan bt r es i = (out, dis) \<Longrightarrow>
   (\<forall>x\<in>set dis. i \<le> x \<and> x < i + length es \<and> meas_time (es ! (x - i)) \<le> bt)
   \<and> (\<forall>x\<in>set out. i \<le> x \<and> x < i + length es \<and> bt < meas_time (es ! (x - i)))"
proof (induction es arbitrary: i out dis)
  case Nil
  then show ?case by simp
next
  case (Cons e es)
  obtain out' dis' where rec: "fl_scan bt r es (i + 1) = (out', dis')"
    by (cases "fl_scan bt r es (i + 1)")
  have IH: "\<forall>x\<in>set dis'. i + 1 \<le> x \<and> x < i + 1 + length es \<and> meas_time (es ! (x - (i + 1))) \<le> bt"
    "\<forall>x\<in>set out'. i + 1 \<le> x \<and> x < i + 1 + length es \<and> bt < meas_time (es ! (x - (i + 1)))"
    using Cons.IH[OF rec] by auto
  have shift: "\<forall>x\<in>set dis'. i \<le> x \<and> x < i + length (e # es) \<and> meas_time ((e # es) ! (x - i)) \<le> bt"
    "\<forall>x\<in>set out'. i \<le> x \<and> x < i + length (e # es) \<and> bt < meas_time ((e # es) ! (x - i))"
    using IH by (auto simp: nth_Cons')
  show ?case
  proof (cases "meas_time e \<le> bt")
    case True
    then have "out = out'" "dis = i # dis'" using Cons.prems rec by auto
    then show ?thesis using shift True by simp
  next
    case False
    show ?thesis
    proof (cases "meas_time e \<le> r")
      case True
      then have "out = i # out'" "dis = dis'" using Cons.prems rec False by auto
      then show ?thesis using shift False by simp
    next
      case False
      then have "out = []" "dis = []" using Cons.prems \<open>\<not> meas_time e \<le> bt\<close> by auto
      then show ?thesis by simp
    qed
  qed
qed

text \<open>
  Claim C6, as the code has it. In the fixed-lag buffer in BATCH mode, when the list
  \<open>ready\<close> of output candidates is not empty, the output of \<open>pop\<close> is the first ready sample
  followed by every later sample of the queue, ready or not, whose \<open>meas_time\<close> is below
  \<open>meas_time(ready[0]) + max_delta\<close>, in queue order. The discarded samples are those of
  the first scan. The queue after the pop consists of the samples at the positions that
  were neither discarded nor output; in particular every other ready sample at or above
  that bound is held back: it is in the queue after the pop.
\<close>

theorem fl_batch_output:
  assumes "flp_mode (fl_params s) = BATCH"
      and "fl_scan (fl_buffer_time s) (t - fl_fixed_lag_delay s) (fl_data s) 0 = (ready, dis)"
      and "ready \<noteq> []"
  shows "pr_data (fst (fl_pop ord t s)) =
           fl_data s ! hd ready
           # filter (\<lambda>e. meas_time e
                          < meas_time (fl_data s ! hd ready) + max_delta (flp_batch (fl_params s)))
                    (drop (hd ready + 1) (fl_data s))
       \<and> pr_discarded_data (fst (fl_pop ord t s)) = map ((!) (fl_data s)) dis
       \<and> fl_data (snd (fl_pop ord t s)) =
           sort_by_meas_time
             (map ((!) (fl_data s))
                (filter (\<lambda>k. k \<notin> set dis \<and> k \<noteq> hd ready
                            \<and> \<not> (hd ready < k
                                  \<and> meas_time (fl_data s ! k)
                                     < meas_time (fl_data s ! hd ready)
                                       + max_delta (flp_batch (fl_params s))))
                   [0 ..< length (fl_data s)]))
       \<and> (\<forall>ix\<in>set ready.
             ix \<noteq> hd ready
             \<and> meas_time (fl_data s ! hd ready) + max_delta (flp_batch (fl_params s))
                \<le> meas_time (fl_data s ! ix)
             \<longrightarrow> fl_data s ! ix \<in> set (fl_data (snd (fl_pop ord t s))))"
proof -
  define bound where
    "bound = meas_time (fl_data s ! hd ready) + max_delta (flp_batch (fl_params s))"
  define dat where "dat = fl_data s"
  define out where "out = fl_batch dat (max_delta (flp_batch (fl_params s))) ready"
  define keep where
    "keep = (\<lambda>k. k \<notin> set dis \<and> k \<noteq> hd ready \<and> \<not> (hd ready < k \<and> meas_time (dat ! k) < bound))"
  have sel: "fl_select ord t s = (out, dis)"
    using assms by (simp add: fl_select_def out_def dat_def)
  have out: "out = hd ready # filter (\<lambda>ix. meas_time (dat ! ix) < bound) [hd ready + 1 ..< length dat]"
    by (simp add: out_def fl_batch_def bound_def dat_def Let_def)
  have rng: "\<forall>x\<in>set dis. x < length dat" "\<forall>x\<in>set ready. x < length dat"
    using fl_scan_dis [OF assms(2)] by (auto simp: dat_def)
  have hd: "hd ready \<in> set ready" using assms(3) by simp
  have disj: "\<forall>x\<in>set ready. x \<notin> set dis"
    using fl_scan_dis [OF assms(2)] by fastforce
  have inds: "set (dis @ out) \<subseteq> {..< length dat}"
    using rng hd by (auto simp: out)
  have "filter (\<lambda>k. k \<notin> set (dis @ out)) [0 ..< length dat] = filter keep [0 ..< length dat]"
    by (rule filter_cong) (auto simp: keep_def out)
  then have rem: "remove_indices dat (dis @ out) = map ((!) dat) (filter keep [0 ..< length dat])"
    using remove_indices_filter [OF inds] by simp
  have data: "map ((!) dat) out = dat ! hd ready # filter (\<lambda>e. meas_time e < bound) (drop (hd ready + 1) dat)"
    unfolding out using map_nth_filter_upt [of dat "\<lambda>e. meas_time e < bound" "hd ready + 1"]
    by simp
  have queue: "fl_data (snd (fl_pop ord t s)) = sort_by_meas_time (map ((!) dat) (filter keep [0 ..< length dat]))"
    using rem by (simp add: fl_pop_def sel Let_def dat_def)
  have held: "\<forall>ix\<in>set ready. ix \<noteq> hd ready \<and> bound \<le> meas_time (dat ! ix)
                \<longrightarrow> dat ! ix \<in> set (fl_data (snd (fl_pop ord t s)))"
  proof (intro ballI impI)
    fix ix assume ix: "ix \<in> set ready" and h: "ix \<noteq> hd ready \<and> bound \<le> meas_time (dat ! ix)"
    have "keep ix" using ix h disj by (auto simp: keep_def)
    moreover have "ix < length dat" using rng ix by simp
    ultimately have "ix \<in> set (filter keep [0 ..< length dat])" by simp
    then have "dat ! ix \<in> set (map ((!) dat) (filter keep [0 ..< length dat]))"
      unfolding set_map by (rule imageI)
    then show "dat ! ix \<in> set (fl_data (snd (fl_pop ord t s)))"
      by (simp add: queue sort_by_meas_time_def)
  qed
  have "pr_data (fst (fl_pop ord t s)) = map ((!) dat) out"
    "pr_discarded_data (fst (fl_pop ord t s)) = map ((!) dat) dis"
    by (simp_all add: fl_pop_def sel Let_def dat_def)
  then show ?thesis
    using data queue held unfolding keep_def bound_def dat_def by simp
qed

theorem fl_batch_output_witness:
  "flp_mode (fl_params batch_mixed_state) = BATCH
   \<and> fl_data batch_mixed_state
       = [sample 50 (ms 100) (ms 110), sample 100 (ms 105) (ms 115), sample 50 (ms 200) (ms 210)]
   \<and> fl_scan (fl_buffer_time batch_mixed_state) (ms 300 - fl_fixed_lag_delay batch_mixed_state)
        (fl_data batch_mixed_state) 0 = ([0, 1, 2], [])
   \<and> [0::nat, 1, 2] \<noteq> []
   \<and> pr_data (fst (fl_pop insertion_order (ms 300) batch_mixed_state))
       = [sample 50 (ms 100) (ms 110), sample 100 (ms 105) (ms 115)]
   \<and> pr_discarded_data (fst (fl_pop insertion_order (ms 300) batch_mixed_state)) = []
   \<and> fl_data (snd (fl_pop insertion_order (ms 300) batch_mixed_state))
       = [sample 50 (ms 200) (ms 210)]"
proof -
  have st: "batch_mixed_state =
      \<lparr> fl_params = test_fl_params BATCH 2,
        fl_data = [sample 50 (ms 100) (ms 110), sample 100 (ms 105) (ms 115),
                   sample 50 (ms 200) (ms 210)],
        fl_fixed_lag_delay = ms 10, fl_buffer_time = 0, fl_current_time = 0 \<rparr>"
    by (simp add: batch_mixed_state_def model_defs)
  have scan: "fl_scan (fl_buffer_time batch_mixed_state) (ms 300 - fl_fixed_lag_delay batch_mixed_state)
        (fl_data batch_mixed_state) 0 = ([0, 1, 2], [])"
    by (simp add: st) (simp add: model_defs)
  have mode: "flp_mode (fl_params batch_mixed_state) = BATCH"
    by (simp add: st test_fl_params_def)
  show ?thesis
    using fl_batch_output [OF mode scan, of insertion_order] scan mode
    by (simp add: st) (simp add: model_defs)
qed

text \<open>The claim as stated fails: with two ready samples 100ms apart and \<open>max_delta = 10ms\<close>
  the second ready sample is not in the output; it stays in the queue.\<close>

theorem fl_batch_counterexample:
  "flp_mode (fl_params batch_far_state) = BATCH
   \<and> fl_scan (fl_buffer_time batch_far_state) (ms 300 - fl_fixed_lag_delay batch_far_state)
        (fl_data batch_far_state) 0 = ([0, 1], [])
   \<and> fl_data batch_far_state = [sample 50 (ms 100) (ms 110), sample 50 (ms 200) (ms 210)]
   \<and> pr_data (fst (fl_pop insertion_order (ms 300) batch_far_state)) = [sample 50 (ms 100) (ms 110)]
   \<and> pr_discarded_data (fst (fl_pop insertion_order (ms 300) batch_far_state)) = []
   \<and> fl_data (snd (fl_pop insertion_order (ms 300) batch_far_state)) = [sample 50 (ms 200) (ms 210)]"
  by (simp add: batch_far_state_def model_defs)

section \<open>The next-reference time of the match step\<close>

lemma find_reference_found:
  "found_ref st \<Longrightarrow>
   find_reference R dat ready st =
     (case ready_refs R dat ready of
        [] \<Rightarrow> st
      | r2 # rest \<Rightarrow> st\<lparr> found_next_ref := True, next_ref_meas_time := meas_time (dat ! r2) \<rparr>)"
  by (induction ready arbitrary: st) (auto simp: ready_refs_def)

lemma find_reference_fresh:
  "\<not> found_ref st \<Longrightarrow>
   find_reference R dat ready st =
     (case ready_refs R dat ready of
        [] \<Rightarrow> st
      | r # rest \<Rightarrow>
          (case rest of
             [] \<Rightarrow> st\<lparr> found_ref := True, ref_idx := r, oldest_ref_meas_time := meas_time (dat ! r) \<rparr>
           | r2 # rest' \<Rightarrow>
               st\<lparr> found_ref := True, ref_idx := r, oldest_ref_meas_time := meas_time (dat ! r),
                    found_next_ref := True, next_ref_meas_time := meas_time (dat ! r2) \<rparr>))"
proof (induction ready arbitrary: st)
  case Nil
  then show ?case by (simp add: ready_refs_def)
next
  case (Cons ix ready)
  show ?case
  proof (cases "id_src (dat ! ix) = R")
    case True
    have "find_reference R dat (ix # ready) st =
          find_reference R dat ready
            (st\<lparr> found_ref := True, ref_idx := ix, oldest_ref_meas_time := meas_time (dat ! ix) \<rparr>)"
      using True Cons.prems by simp
    also have "\<dots> = (case ready_refs R dat ready of
        [] \<Rightarrow> st\<lparr> found_ref := True, ref_idx := ix, oldest_ref_meas_time := meas_time (dat ! ix) \<rparr>
      | r2 # rest \<Rightarrow> st\<lparr> found_ref := True, ref_idx := ix, oldest_ref_meas_time := meas_time (dat ! ix),
                          found_next_ref := True, next_ref_meas_time := meas_time (dat ! r2) \<rparr>)"
      by (subst find_reference_found) (auto split: list.splits)
    finally show ?thesis using True by (simp add: ready_refs_def)
  next
    case False
    then show ?thesis using Cons by (simp add: ready_refs_def)
  qed
qed

text \<open>
  Claim C7, as the code has it. Let the reference sample be the first ready sample of the
  reference stream. The next-reference time is the \<open>meas_time\<close> of the second ready sample
  of the reference stream if there is one. Otherwise the fixed-lag buffer takes the first
  sample of the reference stream behind the reference in the queue, and epoch if there is
  none; the minimal-latency buffer does not look into the queue and takes \<open>t_ref\<close> plus the
  estimated period when the reference stream has an estimator, and epoch if it has none.
\<close>

theorem next_reference_time:
  assumes "ready_refs R dat ready = r # rest"
  shows "found_ref (fl_find_refs R dat ready) \<and> found_ref (ml_find_refs R infos dat ready)
       \<and> ref_idx (fl_find_refs R dat ready) = r \<and> ref_idx (ml_find_refs R infos dat ready) = r
       \<and> oldest_ref_meas_time (fl_find_refs R dat ready) = meas_time (dat ! r)
       \<and> oldest_ref_meas_time (ml_find_refs R infos dat ready) = meas_time (dat ! r)
       \<and> next_ref_meas_time (fl_find_refs R dat ready) =
           (case rest of
              r2 # rest' \<Rightarrow> meas_time (dat ! r2)
            | [] \<Rightarrow> (case find (\<lambda>element. id_src element = R) (drop (r + 1) dat) of
                       Some element \<Rightarrow> meas_time element
                     | None \<Rightarrow> 0))
       \<and> next_ref_meas_time (ml_find_refs R infos dat ready) =
           (case rest of
              r2 # rest' \<Rightarrow> meas_time (dat ! r2)
            | [] \<Rightarrow> (case map_of infos R of
                       Some estimator \<Rightarrow> meas_time (dat ! r) + period estimator
                     | None \<Rightarrow> 0))"
  using assms
  by (auto simp: fl_find_refs_def ml_find_refs_def fl_search_queue_def find_reference_fresh
        ref_search_init_def split: list.splits option.splits)

theorem next_reference_time_witness:
  "ready_refs 50 three_samples [0, 1] = [0]
   \<and> next_ref_meas_time (fl_find_refs 50 three_samples [0, 1]) = ms 200
   \<and> next_ref_meas_time (ml_find_refs 50 [(50, estimator_50ms)] three_samples [0, 1]) = ms 150"
proof -
  have refs: "ready_refs 50 three_samples [0, 1] = [0]"
    by (simp add: three_samples_def model_defs)
  show ?thesis
    using next_reference_time[OF refs, of "[(50, estimator_50ms)]"] refs
    by (simp add: three_samples_def estimator_50ms_def model_defs)
qed

text \<open>The claim as stated fails for the minimal-latency buffer: the reference stream sent
  at 100ms and at 200ms, only the first sample is ready at the pop at 210ms (the placeholder
  made for 150ms ends the scan before the sample of 200ms), and the next-reference time
  is 150ms, not the 200ms of the queued sample.\<close>

theorem ml_next_reference_counterexample:
  "map id_src (ml_data missed_sample_state) = [50, 50, 50]
   \<and> map meas_time (ml_data missed_sample_state) = [ms 100, ms 200, ms 250]
   \<and> map is_placeholder (ml_data missed_sample_state) = [False, False, True]
   \<and> output_inds (ml_pop_loop no_quantile missed_sample_state (ml_data missed_sample_state) 0
         (pop_loop_init (ms 210) (ml_data missed_sample_state))) = [0]
   \<and> next_ref_meas_time
        (ml_find_refs (reference_stream (mlp_match (ml_params missed_sample_state)))
           (ml_source_infos missed_sample_state)
           (p_data (ml_pop_loop no_quantile missed_sample_state (ml_data missed_sample_state) 0
              (pop_loop_init (ms 210) (ml_data missed_sample_state))))
           (sort [0])) = ms 150"
  by (simp add: missed_sample_state_def model_defs)

section \<open>The discard rule of the match step\<close>

lemma map_of_map_index_None:
  "map_of (map_index m k) k' = None \<longleftrightarrow> map_of m k' = None \<and> k' \<noteq> k"
  by (auto simp: map_index_def split: option.splits)

lemma map_of_take_if_closer_None:
  "map_of (take_if_closer m k ix d) k' = None \<longleftrightarrow> map_of m k' = None \<and> k' \<noteq> k"
  by (auto simp: take_if_closer_def update_conv map_of_map_index_None)

text \<open>The scan of the fixed-lag buffer sets \<open>found_better_for_next\<close> exactly when it stops at
  a sample whose source has no entry: none at the start and none from the samples before.\<close>

lemma fl_match_loop_better:
  "snd (fl_match_loop R t_ref t_next es i m) \<longleftrightarrow>
     (\<exists>pre e post. es = pre @ e # post
        \<and> (\<forall>x\<in>set pre. id_src x = R \<or> \<not> better_for_next t_ref t_next x)
        \<and> id_src e \<noteq> R \<and> better_for_next t_ref t_next e
        \<and> map_of m (id_src e) = None \<and> id_src e \<notin> id_src ` set pre)"
  (is "?L es i m \<longleftrightarrow> ?Rhs es m")
proof (induction es arbitrary: i m)
  case Nil
  then show ?case by simp
next
  case (Cons x es)
  have split: "\<And>P. (\<exists>pre e post. x # es = pre @ e # post \<and> P pre e post) \<longleftrightarrow>
        P [] x es \<or> (\<exists>pre e post. es = pre @ e # post \<and> P (x # pre) e post)"
    by (auto simp: Cons_eq_append_conv)
  show ?case
  proof (cases "id_src x = R")
    case True
    have "?L (x # es) i m \<longleftrightarrow> ?L es (i + 1) m" using True by simp
    also have "\<dots> \<longleftrightarrow> ?Rhs es m" by (rule Cons.IH)
    also have "\<dots> \<longleftrightarrow> ?Rhs (x # es) m"
      unfolding split using True by auto
    finally show ?thesis .
  next
    case notR: False
    show ?thesis
    proof (cases "better_for_next t_ref t_next x")
      case True
      have "?L (x # es) i m \<longleftrightarrow> map_of m (id_src x) = None"
        using notR True by (simp add: better_for_next_def Let_def)
      also have "\<dots> \<longleftrightarrow> ?Rhs (x # es) m"
        unfolding split using notR True by auto
      finally show ?thesis .
    next
      case False
      define m' where "m' = take_if_closer m (id_src x) i \<bar>meas_time x - t_ref\<bar>"
      have "?L (x # es) i m \<longleftrightarrow> ?L es (i + 1) m'"
        using notR False by (simp add: better_for_next_def Let_def m'_def)
      also have "\<dots> \<longleftrightarrow> ?Rhs es m'" by (rule Cons.IH)
      also have "\<dots> \<longleftrightarrow> ?Rhs (x # es) m"
        unfolding split using notR False
        by (auto simp: m'_def map_of_take_if_closer_None)
      finally show ?thesis .
    qed
  qed
qed

text \<open>
  Claim C2, as the code has it. In MATCH mode, when the size of the matching map differs
  from the required count:
  the fixed-lag buffer discards the reference index exactly when \<open>found_better_for_next\<close>
  is set, that is when its scan over the whole queue stops at a sample that is closer to
  the next-reference time than to the reference time and whose source has no candidate so
  far, and returns empty output and empty discard otherwise;
  the minimal-latency buffer always discards the reference index.
\<close>

theorem reference_discard_rule:
  "(found_ref (fl_find_refs (reference_stream (flp_match fp)) dat ready)
      \<and> length (fst (fl_matching_scan fp dat ready)) \<noteq> num_streams (flp_match fp)
    \<longrightarrow> fl_runMatching ord fp dat ready =
          ([], if snd (fl_matching_scan fp dat ready)
               then [ref_idx (fl_find_refs (reference_stream (flp_match fp)) dat ready)]
               else []))
   \<and> (snd (fl_matching_scan fp dat ready) \<longleftrightarrow>
        (\<exists>pre e post. dat = pre @ e # post
           \<and> (\<forall>x\<in>set pre. id_src x = reference_stream (flp_match fp)
                  \<or> \<not> better_for_next
                        (oldest_ref_meas_time (fl_find_refs (reference_stream (flp_match fp)) dat ready))
                        (next_ref_meas_time (fl_find_refs (reference_stream (flp_match fp)) dat ready))
                        x)
           \<and> id_src e \<noteq> reference_stream (flp_match fp)
           \<and> better_for_next
                (oldest_ref_meas_time (fl_find_refs (reference_stream (flp_match fp)) dat ready))
                (next_ref_meas_time (fl_find_refs (reference_stream (flp_match fp)) dat ready))
                e
           \<and> id_src e \<notin> id_src ` set pre))
   \<and> (found_ref (ml_find_refs (reference_stream (mlp_match mp)) infos dat' (sort ready'))
      \<and> length (fst (ml_matching_scan mp infos dat' (sort ready'))) \<noteq> length infos
    \<longrightarrow> ml_runMatching ord' mp infos dat' ready' =
          ([], [ref_idx (ml_find_refs (reference_stream (mlp_match mp)) infos dat' (sort ready'))]))"
proof (intro conjI impI)
  assume "found_ref (fl_find_refs (reference_stream (flp_match fp)) dat ready)
      \<and> length (fst (fl_matching_scan fp dat ready)) \<noteq> num_streams (flp_match fp)"
  then show "fl_runMatching ord fp dat ready =
          ([], if snd (fl_matching_scan fp dat ready)
               then [ref_idx (fl_find_refs (reference_stream (flp_match fp)) dat ready)]
               else [])"
    by (simp add: fl_runMatching_def Let_def case_prod_beta)
next
  show "snd (fl_matching_scan fp dat ready) \<longleftrightarrow>
        (\<exists>pre e post. dat = pre @ e # post
           \<and> (\<forall>x\<in>set pre. id_src x = reference_stream (flp_match fp)
                  \<or> \<not> better_for_next
                        (oldest_ref_meas_time (fl_find_refs (reference_stream (flp_match fp)) dat ready))
                        (next_ref_meas_time (fl_find_refs (reference_stream (flp_match fp)) dat ready))
                        x)
           \<and> id_src e \<noteq> reference_stream (flp_match fp)
           \<and> better_for_next
                (oldest_ref_meas_time (fl_find_refs (reference_stream (flp_match fp)) dat ready))
                (next_ref_meas_time (fl_find_refs (reference_stream (flp_match fp)) dat ready))
                e
           \<and> id_src e \<notin> id_src ` set pre)"
    unfolding fl_matching_scan_def Let_def fl_match_loop_better by auto
next
  assume "found_ref (ml_find_refs (reference_stream (mlp_match mp)) infos dat' (sort ready'))
      \<and> length (fst (ml_matching_scan mp infos dat' (sort ready'))) \<noteq> length infos"
  then show "ml_runMatching ord' mp infos dat' ready' =
          ([], [ref_idx (ml_find_refs (reference_stream (mlp_match mp)) infos dat' (sort ready'))])"
    by (simp add: ml_runMatching_def Let_def case_prod_beta)
qed

lemma late_partner_state_eq:
  "late_partner_state =
     \<lparr> fl_params = test_fl_params MATCH 2,
       fl_data = [sample 50 (ms 100) (ms 110), sample 100 (ms 190) (ms 200),
                  sample 50 (ms 200) (ms 210)],
       fl_fixed_lag_delay = 0, fl_buffer_time = 0, fl_current_time = 0 \<rparr>"
  by (simp add: late_partner_state_def model_defs)

theorem reference_discard_rule_witness:
  "found_ref (fl_find_refs (reference_stream (flp_match (fl_params late_partner_state)))
       (fl_data late_partner_state) [0])
   \<and> length (fst (fl_matching_scan (fl_params late_partner_state) (fl_data late_partner_state) [0]))
       \<noteq> num_streams (flp_match (fl_params late_partner_state))
   \<and> snd (fl_matching_scan (fl_params late_partner_state) (fl_data late_partner_state) [0])
   \<and> fl_runMatching insertion_order (fl_params late_partner_state) (fl_data late_partner_state) [0]
       = ([], [0])
   \<and> found_ref (ml_find_refs (reference_stream (mlp_match (ml_params lone_reference_state)))
       (ml_source_infos lone_reference_state) (ml_data lone_reference_state) (sort [0]))
   \<and> length (fst (ml_matching_scan (ml_params lone_reference_state)
         (ml_source_infos lone_reference_state) (ml_data lone_reference_state) (sort [0])))
       \<noteq> length (ml_source_infos lone_reference_state)
   \<and> ml_runMatching insertion_order (ml_params lone_reference_state)
        (ml_source_infos lone_reference_state) (ml_data lone_reference_state) [0] = ([], [0])"
  using reference_discard_rule[where fp = "fl_params late_partner_state"
      and dat = "fl_data late_partner_state" and ready = "[0]" and ord = insertion_order
      and mp = "ml_params lone_reference_state" and infos = "ml_source_infos lone_reference_state"
      and dat' = "ml_data lone_reference_state" and ready' = "[0]" and ord' = insertion_order]
  by (simp add: late_partner_state_eq lone_reference_state_def) (simp add: model_defs)

text \<open>The claim as stated fails for the minimal-latency buffer: the queue holds the
  reference sample only, so that no sample can fit the next reference better, two sources
  are known, and \<open>pop\<close> discards the reference sample.\<close>

theorem ml_reference_discard_counterexample:
  "map id_src (ml_data lone_reference_state) = [50]
   \<and> map fst (ml_source_infos lone_reference_state) = [50, 100]
   \<and> pr_data (fst (ml_pop insertion_order no_quantile (ms 60) lone_reference_state)) = []
   \<and> map meas_time
        (pr_discarded_data (fst (ml_pop insertion_order no_quantile (ms 60) lone_reference_state)))
       = [ms 50]
   \<and> ml_data (snd (ml_pop insertion_order no_quantile (ms 60) lone_reference_state)) = []"
  by (simp add: lone_reference_state_def model_defs)

section \<open>The number of placeholders\<close>

lemma placeholders_loop_length:
  "length (placeholders_loop Q params estimator bt i meas_t n k) \<le> n"
  by (induction n arbitrary: k) (auto simp: Let_def)

lemma placeholders_loop_id:
  "p \<in> set (placeholders_loop Q params estimator bt i meas_t n k) \<Longrightarrow> id_src p = i"
  by (induction n arbitrary: k) (auto simp: Let_def createPlaceholder_def split: if_splits)

lemma create_placeholders_length:
  "length (snd (create_placeholders Q s element n)) \<le> n"
  by (simp add: create_placeholders_def placeholders_loop_length split: option.splits)

lemma create_placeholders_id:
  "p \<in> set (snd (create_placeholders Q s element n)) \<Longrightarrow> id_src p = id_src element"
  by (auto simp: create_placeholders_def split: option.splits if_splits dest: placeholders_loop_id)

lemma create_placeholders_data:
  "data (fst (create_placeholders Q s element n)) = data element"
  by (simp add: create_placeholders_def split: option.splits)

lemma num_placeholders_sort [simp]:
  "num_placeholders j (sort_by_meas_time xs) = num_placeholders j xs"
  by (simp add: num_placeholders_def sort_by_meas_time_def filter_sort)

lemma num_placeholders_append [simp]:
  "num_placeholders j (xs @ ys) = num_placeholders j xs + num_placeholders j ys"
  by (simp add: num_placeholders_def)

lemma num_placeholders_filter: "num_placeholders j (filter P xs) \<le> num_placeholders j xs"
  by (induction xs) (auto simp: num_placeholders_def)

lemma num_placeholders_real [simp]:
  "data e \<noteq> None \<Longrightarrow> num_placeholders j [e] = 0"
  by (simp add: num_placeholders_def is_placeholder_def)

lemma num_placeholders_update:
  "data e \<noteq> None \<Longrightarrow> num_placeholders j (xs[b := e]) \<le> num_placeholders j xs"
  by (induction xs arbitrary: b) (auto simp: num_placeholders_def is_placeholder_def split: nat.splits)

lemma num_placeholders_new:
  "num_placeholders j (snd (create_placeholders Q s element n))
     \<le> (if j = id_src element then n else 0)"
proof (cases "j = id_src element")
  case True
  have "num_placeholders j (snd (create_placeholders Q s element n))
          \<le> length (snd (create_placeholders Q s element n))"
    by (simp add: num_placeholders_def)
  then show ?thesis using True create_placeholders_length[of Q s element n] by simp
next
  case False
  have "filter (\<lambda>e. id_src e = j \<and> is_placeholder e) (snd (create_placeholders Q s element n)) = []"
    using False by (auto simp: filter_empty_conv dest: create_placeholders_id)
  then show ?thesis using False by (simp add: num_placeholders_def)
qed

lemma push_search_best:
  "push_search i meas_t es n (mn, bi, mi) = (mn', Some b, mi') \<Longrightarrow>
   bi = Some b \<or> (n \<le> b \<and> b < n + length es \<and> id_src (es ! (b - n)) = i
                    \<and> is_placeholder (es ! (b - n)))"
proof (induction es arbitrary: n mn bi mi)
  case Nil
  then show ?case by simp
next
  case (Cons e es)
  show ?case
  proof (cases "id_src e = i \<and> is_placeholder e \<and> \<bar>meas_time e - meas_t\<bar> < mn")
    case True
    then have "push_search i meas_t es (n + 1)
        (\<bar>meas_time e - meas_t\<bar>, Some n, if meas_time e < meas_t then mi + 1 else mi)
        = (mn', Some b, mi')"
      using Cons.prems by (simp add: Let_def)
    from Cons.IH[OF this] show ?thesis
      using True by (auto simp: nth_Cons')
  next
    case False
    then obtain mi2 where "push_search i meas_t es (n + 1) (mn, bi, mi2) = (mn', Some b, mi')"
      using Cons.prems by (auto simp: Let_def split: if_splits)
    from Cons.IH[OF this] show ?thesis
      by (auto simp: nth_Cons')
  qed
qed

lemma push_insert_count:
  assumes "\<And>b. best_ind = Some b \<Longrightarrow> id_src (ml_data s ! b) = i"
  shows "num_placeholders j (fst (push_insert Q s i receipt_t meas_t d best_ind missed))
     \<le> num_placeholders j (ml_data s) + (if j = i then MAX_INSERTED_PLACEHOLDERS else 0)"
proof -
  define element where "element =
    (case best_ind of
       None \<Rightarrow> new_element i meas_t receipt_t d
     | Some b \<Rightarrow> (ml_data s ! b)\<lparr> data := Some d, meas_time := meas_t, receipt_time := receipt_t \<rparr>)"
  obtain e' phs where cp: "create_placeholders Q s element MAX_INSERTED_PLACEHOLDERS = (e', phs)"
    by (cases "create_placeholders Q s element MAX_INSERTED_PLACEHOLDERS")
  have real: "data element \<noteq> None"
    by (simp add: element_def new_element_def split: option.splits)
  have e': "data e' \<noteq> None"
    using create_placeholders_data[of Q s element MAX_INSERTED_PLACEHOLDERS] real
    unfolding cp by simp
  have phs: "num_placeholders j phs \<le> (if j = id_src element then MAX_INSERTED_PLACEHOLDERS else 0)"
    using num_placeholders_new[of j Q s element MAX_INSERTED_PLACEHOLDERS]
    unfolding cp by simp
  show ?thesis
  proof (cases best_ind)
    case None
    then have el: "element = new_element i meas_t receipt_t d" by (simp add: element_def)
    have "id_src element = i" by (simp add: el new_element_def)
    then show ?thesis using None e' phs cp unfolding el by (simp add: push_insert_def)
  next
    case (Some b)
    then have el: "element = (ml_data s ! b)\<lparr> data := Some d, meas_time := meas_t,
                                          receipt_time := receipt_t \<rparr>"
      by (simp add: element_def)
    have "id_src element = i" using assms[OF Some] by (simp add: el)
    moreover have "num_placeholders j ((ml_data s)[b := e']) \<le> num_placeholders j (ml_data s)"
      using e' by (rule num_placeholders_update)
    ultimately show ?thesis using Some phs cp unfolding el by (simp add: push_insert_def)
  qed
qed

text \<open>
  Claim C8, as the code has it. The bound of 10 is a bound on one expansion:
  \<open>create_placeholders\<close> returns at most 10 placeholders, so that a push raises the number
  of placeholders of the pushed source in the queue by at most 10, and that of no other
  source. The number of placeholders of one source in the queue is not bounded by 10.
\<close>

theorem placeholders_per_expansion:
  "length (snd (create_placeholders Q s element MAX_INSERTED_PLACEHOLDERS)) \<le> 10
   \<and> num_placeholders j (ml_data (snd (ml_push Q i receipt_t meas_t d s)))
       \<le> num_placeholders j (ml_data s) + (if j = i then 10 else 0)"
proof
  show "length (snd (create_placeholders Q s element MAX_INSERTED_PLACEHOLDERS)) \<le> 10"
    using create_placeholders_length[of Q s element MAX_INSERTED_PLACEHOLDERS]
    by (simp add: MAX_INSERTED_PLACEHOLDERS_def)
next
  show "num_placeholders j (ml_data (snd (ml_push Q i receipt_t meas_t d s)))
       \<le> num_placeholders j (ml_data s) + (if j = i then 10 else 0)"
  proof (cases "wrap64 (ml_current_time s - receipt_t) > mlp_reset_threshold (ml_params s)")
    case True
    then show ?thesis by (simp add: ml_push_def ml_reset_def num_placeholders_def)
  next
    case noreset: False
    show ?thesis
    proof (cases "map_of (ml_source_infos s) i")
      case None
      then show ?thesis using noreset by (simp add: ml_push_def Let_def new_element_def)
    next
      case (Some estimator)
      obtain mn best_ind missed where ps:
        "push_search i meas_t (ml_data s) 0 (half (period estimator), None, 0) = (mn, best_ind, missed)"
        by (cases "push_search i meas_t (ml_data s) 0 (half (period estimator), None, 0)")
      obtain dat missed' where pi:
        "push_insert Q s i receipt_t meas_t d best_ind missed = (dat, missed')"
        by (cases "push_insert Q s i receipt_t meas_t d best_ind missed")
      have best: "\<And>b. best_ind = Some b \<Longrightarrow> id_src (ml_data s ! b) = i"
        using push_search_best[of i meas_t "ml_data s" 0 "half (period estimator)" None 0 mn _ missed] ps
        by auto
      have "num_placeholders j dat
          \<le> num_placeholders j (ml_data s) + (if j = i then MAX_INSERTED_PLACEHOLDERS else 0)"
        using push_insert_count[of best_ind s i j Q receipt_t meas_t d missed, OF best] pi by simp
      moreover have "num_placeholders j (filter (\<lambda>sample. \<not> stale_placeholder i meas_t sample) dat)
          \<le> num_placeholders j dat"
        by (rule num_placeholders_filter)
      ultimately have "num_placeholders j (filter (\<lambda>sample. \<not> stale_placeholder i meas_t sample) dat)
          \<le> num_placeholders j (ml_data s) + (if j = i then 10 else 0)"
        by (auto simp: MAX_INSERTED_PLACEHOLDERS_def split: if_splits)
      then show ?thesis
        using noreset Some ps pi by (simp add: ml_push_def Let_def)
    qed
  qed
qed

text \<open>A push far behind \<open>buffer_time\<close> reaches the bound: ten placeholders, from 1200ms to
  2100ms, none of them beyond the buffer time of 5000ms.\<close>

theorem placeholders_per_expansion_witness:
  "length (snd (create_placeholders no_quantile late_source_state (sample 50 (ms 1100) (ms 5310))
                  MAX_INSERTED_PLACEHOLDERS)) = 10
   \<and> num_placeholders 50 (ml_data late_source_state) = 0
   \<and> num_placeholders 50
         (ml_data (snd (ml_push no_quantile 50 (ms 5310) (ms 1100) () late_source_state))) = 10"
  using placeholders_per_expansion[where Q = no_quantile and s = late_source_state
      and element = "sample 50 (ms 1100) (ms 5310)" and j = 50 and i = 50
      and receipt_t = "ms 5310" and meas_t = "ms 1100" and d = "()"]
  by (simp add: late_source_state_def model_defs)

text \<open>The claim as stated fails: after the burst the queue holds 11 placeholders of the
  source, one behind each of the last 11 samples, a period later.\<close>

theorem placeholder_count_counterexample:
  "num_placeholders 50 (ml_data burst_state) = 11"
  by (simp add: burst_state_def model_defs)

section \<open>The order and the times of the released samples\<close>

lemma sorted_map_nth:
  assumes "sorted (map f xs)" and "sorted_wrt (<) inds" and "\<forall>x\<in>set inds. x < length xs"
  shows "sorted (map (\<lambda>ix. f (xs ! ix)) inds)"
proof -
  have "sorted_wrt (\<lambda>a b. f (xs ! a) \<le> f (xs ! b)) inds"
  proof (rule sorted_wrt_mono_rel[OF _ assms(2)])
    fix a b assume "a \<in> set inds" "b \<in> set inds" "a < b"
    then have "a \<le> b" "b < length (map f xs)" using assms(3) by auto
    from sorted_nth_mono[OF assms(1) this] show "f (xs ! a) \<le> f (xs ! b)"
      using \<open>a < b\<close> \<open>b < length (map f xs)\<close> by simp
  qed
  then show ?thesis by (simp add: sorted_wrt_map)
qed

lemma fl_scan_out:
  "fl_scan bt r es i = (out, dis) \<Longrightarrow>
   sorted_wrt (<) out \<and> (\<forall>x\<in>set out. i \<le> x \<and> x < i + length es \<and> bt < meas_time (es ! (x - i)))"
proof (induction es arbitrary: i out dis)
  case Nil
  then show ?case by simp
next
  case (Cons e es)
  obtain out' dis' where rec: "fl_scan bt r es (i + 1) = (out', dis')"
    by (cases "fl_scan bt r es (i + 1)")
  have IH: "sorted_wrt (<) out'"
    "\<forall>x\<in>set out'. i + 1 \<le> x \<and> x < i + 1 + length es \<and> bt < meas_time (es ! (x - (i + 1)))"
    using Cons.IH[OF rec] by auto
  have shift: "\<forall>x\<in>set out'. i \<le> x \<and> x < i + length (e # es) \<and> bt < meas_time ((e # es) ! (x - i))"
    using IH(2) by (auto simp: nth_Cons')
  show ?case
  proof (cases "meas_time e \<le> bt")
    case True
    then have "out = out'" using Cons.prems rec by simp
    then show ?thesis using IH(1) shift by simp
  next
    case False
    show ?thesis
    proof (cases "meas_time e \<le> r")
      case True
      then have "out = i # out'" using Cons.prems rec False by simp
      then show ?thesis using IH shift False by auto
    next
      case False
      then have "out = []" using Cons.prems \<open>\<not> meas_time e \<le> bt\<close> by simp
      then show ?thesis by simp
    qed
  qed
qed

lemma fl_batch_inds:
  assumes "hd ready < length dat"
  shows "sorted_wrt (<) (fl_batch dat delta ready)
       \<and> (\<forall>x\<in>set (fl_batch dat delta ready). hd ready \<le> x \<and> x < length dat)"
proof -
  have "sorted_wrt (<) (filter (\<lambda>ix. meas_time (dat ! ix) < meas_time (dat ! hd ready) + delta)
            [hd ready + 1 ..< length dat])"
    by (rule sorted_wrt_filter) (simp add: sorted_wrt_upt del: upt_Suc)
  then show ?thesis using assms by (auto simp: fl_batch_def Let_def)
qed

text \<open>The output indices of the fixed-lag buffer outside MATCH mode: increasing, inside the
  queue, and each at or behind a sample of the first scan.\<close>

lemma fl_select_inds:
  assumes "flp_mode (fl_params s) \<noteq> MATCH"
  shows "sorted_wrt (<) (fst (fl_select ord t s))
       \<and> (\<forall>x\<in>set (fst (fl_select ord t s)). x < length (fl_data s)
             \<and> (\<exists>y. y \<le> x \<and> y < length (fl_data s) \<and> fl_buffer_time s < meas_time (fl_data s ! y)))"
proof -
  obtain out dis where scan:
    "fl_scan (fl_buffer_time s) (t - fl_fixed_lag_delay s) (fl_data s) 0 = (out, dis)"
    by (cases "fl_scan (fl_buffer_time s) (t - fl_fixed_lag_delay s) (fl_data s) 0")
  have out: "sorted_wrt (<) out"
    "\<forall>x\<in>set out. x < length (fl_data s) \<and> fl_buffer_time s < meas_time (fl_data s ! x)"
    using fl_scan_out[OF scan] by auto
  show ?thesis
  proof (cases "flp_mode (fl_params s) = BATCH \<and> out \<noteq> []")
    case True
    then have hd: "hd out \<in> set out" by simp
    then have lt: "hd out < length (fl_data s)" using out(2) by blast
    have sel: "fst (fl_select ord t s) = fl_batch (fl_data s) (max_delta (flp_batch (fl_params s))) out"
      using True scan by (simp add: fl_select_def)
    show ?thesis
      unfolding sel using fl_batch_inds[OF lt, of "max_delta (flp_batch (fl_params s))"] out(2) hd lt
      by blast
  next
    case False
    then have sel: "fst (fl_select ord t s) = out"
      using assms scan by (auto simp: fl_select_def)
    show ?thesis unfolding sel using out by blast
  qed
qed


subsection \<open>The scan of the minimal-latency buffer\<close>

lemma create_placeholders_sample_of:
  "sample_of (fst (create_placeholders Q s element n)) = sample_of element"
  by (simp add: create_placeholders_def sample_of_def split: option.splits)

lemma sample_of_nth:
  "map sample_of xs = map sample_of ys \<Longrightarrow> x < length ys \<Longrightarrow>
   meas_time (xs ! x) = meas_time (ys ! x) \<and> data (xs ! x) = data (ys ! x)
   \<and> id_src (xs ! x) = id_src (ys ! x)"
proof -
  assume eq: "map sample_of xs = map sample_of ys" and lt: "x < length ys"
  have len: "length xs = length ys" using eq by (metis length_map)
  have "sample_of (xs ! x) = sample_of (ys ! x)"
    using eq lt len by (metis nth_map)
  then show ?thesis by (simp add: sample_of_def)
qed

text \<open>The loop of \<open>pop\<close> changes flags only; its output indices increase, and each of them
  is the index of a real sample that is not older than \<open>buffer_time\<close>.\<close>

lemma ml_pop_loop_inv:
  assumes "es = drop i D"
      and "map sample_of (p_data acc) = map sample_of D"
      and "sorted_wrt (<) (output_inds acc)"
      and "\<forall>x\<in>set (output_inds acc). x < i \<and> x < length D
             \<and> \<not> meas_time (D ! x) < ml_buffer_time s \<and> data (D ! x) \<noteq> None"
  shows "map sample_of (p_data (ml_pop_loop Q s es i acc)) = map sample_of D
       \<and> sorted_wrt (<) (output_inds (ml_pop_loop Q s es i acc))
       \<and> (\<forall>x\<in>set (output_inds (ml_pop_loop Q s es i acc)). x < length D
             \<and> \<not> meas_time (D ! x) < ml_buffer_time s \<and> data (D ! x) \<noteq> None)"
  using assms
proof (induction es arbitrary: i acc)
  case Nil
  then show ?case by auto
next
  case (Cons element rest)
  have i: "i < length D" using Cons.prems(1) by (metis drop_eq_Nil2 list.distinct(1) not_le)
  have el: "element = D ! i" using Cons.prems(1) i by (metis nth_via_drop)
  have rest: "rest = drop (i + 1) D" using Cons.prems(1) by (metis Suc_eq_plus1 drop_Suc list.sel(3) tl_drop)
  show ?case
  proof (cases "pop_visit (ml_buffer_time s) element i acc")
    case None
    then have stop: "ml_pop_loop Q s (element # rest) i acc = acc" by simp
    show ?thesis unfolding stop using Cons.prems(2,3,4) by blast
  next
    case (Some acc1)
    obtain element' phs where cp:
      "create_placeholders Q s element MAX_INSERTED_PLACEHOLDERS = (element', phs)"
      by (cases "create_placeholders Q s element MAX_INSERTED_PLACEHOLDERS")
    define acc2 where "acc2 = acc1\<lparr> p_time := (if phs \<noteq> []
                                    then min (p_time acc1) (meas_time (last phs))
                                    else p_time acc1),
                        cleaned_data := cleaned_data acc1 @ phs,
                        p_data := (p_data acc1)[i := element'] \<rparr>"
    have step: "ml_pop_loop Q s (element # rest) i acc = ml_pop_loop Q s rest (i + 1) acc2"
      using Some cp by (simp add: acc2_def)
    have pd1: "p_data acc1 = p_data acc"
      using Some by (auto simp: pop_visit_def split: if_splits)
    have out1: "output_inds acc1 = output_inds acc
        \<or> (output_inds acc1 = output_inds acc @ [i]
             \<and> \<not> meas_time element < ml_buffer_time s \<and> data element \<noteq> None)"
      using Some by (auto simp: pop_visit_def is_placeholder_def split: if_splits)
    have e': "sample_of element' = sample_of (D ! i)"
      using create_placeholders_sample_of[of Q s element MAX_INSERTED_PLACEHOLDERS] cp el by simp
    have "map sample_of (p_data acc2) = (map sample_of D)[i := sample_of (D ! i)]"
      using Cons.prems(2) e' by (simp add: acc2_def pd1 map_update)
    also have "\<dots> = map sample_of D"
      using i by (metis length_map list_update_id nth_map)
    finally have a: "map sample_of (p_data acc2) = map sample_of D" .
    have b: "sorted_wrt (<) (output_inds acc2)"
      using out1 Cons.prems(3,4) by (auto simp: acc2_def sorted_wrt_append)
    have c: "\<forall>x\<in>set (output_inds acc2). x < i + 1 \<and> x < length D
             \<and> \<not> meas_time (D ! x) < ml_buffer_time s \<and> data (D ! x) \<noteq> None"
      using out1 Cons.prems(4) i el by (fastforce simp: acc2_def less_Suc_eq)
    show ?thesis
      unfolding step by (rule Cons.IH[OF rest a b c])
  qed
qed

lemma ml_pop_loop_start:
  "map sample_of (p_data (ml_pop_loop Q s (ml_data s) 0 (pop_loop_init t (ml_data s))))
     = map sample_of (ml_data s)
   \<and> sorted_wrt (<) (output_inds (ml_pop_loop Q s (ml_data s) 0 (pop_loop_init t (ml_data s))))
   \<and> (\<forall>x\<in>set (output_inds (ml_pop_loop Q s (ml_data s) 0 (pop_loop_init t (ml_data s)))).
         x < length (ml_data s) \<and> \<not> meas_time (ml_data s ! x) < ml_buffer_time s
         \<and> data (ml_data s ! x) \<noteq> None)"
  by (rule ml_pop_loop_inv) (simp_all add: pop_loop_init_def)


subsection \<open>The tuple of the minimal-latency buffer\<close>

lemma seconds_below_DBL_MAX:
  assumes "time_ok a" and "time_ok b"
  shows "seconds \<bar>a - b\<bar> < DBL_MAX"
proof -
  have "\<bar>a - b\<bar> \<le> 2 ^ 64" using assms unfolding time_ok_def by simp linarith
  define r where "r = real_of_int \<bar>a - b\<bar>"
  have "real_of_int \<bar>a - b\<bar> \<le> 2 ^ 64"
    using \<open>\<bar>a - b\<bar> \<le> 2 ^ 64\<close> by (metis of_int_le_iff of_int_numeral of_int_power)
  then have r: "\<bar>r\<bar> \<le> 2 ^ 64" unfolding r_def by simp
  define y where "y = fl r"
  have "\<bar>y\<bar> \<le> 2 * \<bar>r\<bar> + 1" unfolding y_def by (rule fl_bound)
  then have y: "\<bar>y\<bar> \<le> 2 * 2 ^ 64 + 1" using r by linarith
  have "\<bar>y / 10 ^ 9\<bar> = \<bar>y\<bar> / 10 ^ 9" by simp
  also have "\<dots> \<le> (2 * 2 ^ 64 + 1) / 10 ^ 9" using y by (intro divide_right_mono) auto
  also have "\<dots> \<le> 2 ^ 64" by simp
  finally have z: "\<bar>y / 10 ^ 9\<bar> \<le> 2 ^ 64" .
  have "\<bar>fl (y / 10 ^ 9)\<bar> \<le> 2 * \<bar>y / 10 ^ 9\<bar> + 1" by (rule fl_bound)
  then have "\<bar>fl (y / 10 ^ 9)\<bar> \<le> 2 * 2 ^ 64 + 1" using z by linarith
  moreover have "(2::real) * 2 ^ 64 + 1 < DBL_MAX" by (simp add: DBL_MAX_def)
  moreover have "seconds \<bar>a - b\<bar> = fl (y / 10 ^ 9)"
    by (simp add: seconds_def ddiv_def double_of_int_def y_def r_def)
  ultimately show ?thesis by linarith
qed

lemma set_AList_update:
  "x \<in> set (AList.update k v al) \<Longrightarrow> x = (k, v) \<or> x \<in> set al"
  by (induction al) (auto split: if_splits)

lemma update_fresh_last:
  "map_of m k = None \<Longrightarrow> AList.update k v (m @ [(k, d)]) = m @ [(k, v)]"
  by (induction m) (auto split: if_splits)

lemma take_if_closer_entries:
  assumes "\<forall>p\<in>set m. idx (snd p) \<in> S" and "ix \<in> S" and "seconds d < DBL_MAX"
  shows "\<forall>p\<in>set (take_if_closer m k ix d). idx (snd p) \<in> S"
proof (cases "map_of m k")
  case None
  then have "take_if_closer m k ix d
      = AList.update k \<lparr> idx = ix, tau = seconds d \<rparr> (m @ [(k, default_entry)])"
    using assms(3) by (simp add: take_if_closer_def map_at_def map_index_def default_entry_def)
  also have "\<dots> = m @ [(k, \<lparr> idx = ix, tau = seconds d \<rparr>)]"
    using None by (rule update_fresh_last)
  finally show ?thesis using assms(1,2) by auto
next
  case (Some v)
  then have mi: "map_index m k = m" by (simp add: map_index_def)
  show ?thesis
    using assms(1,2) by (auto simp: take_if_closer_def mi dest!: set_AList_update)
qed

lemma ml_match_ready_entries:
  assumes "\<forall>p\<in>set m. idx (snd p) \<in> S"
      and "\<forall>ix\<in>set ready. ix \<in> S \<and> seconds \<bar>meas_time (dat ! ix) - t_ref\<bar> < DBL_MAX"
  shows "\<forall>p\<in>set (fst (ml_match_ready R t_ref t_next dat ready (m, latest))). idx (snd p) \<in> S"
  using assms
proof (induction ready arbitrary: m latest)
  case Nil
  then show ?case by simp
next
  case (Cons ix ready)
  have ix: "ix \<in> S" "seconds \<bar>meas_time (dat ! ix) - t_ref\<bar> < DBL_MAX"
    using Cons.prems(2) by auto
  have rest: "\<forall>ix\<in>set ready. ix \<in> S \<and> seconds \<bar>meas_time (dat ! ix) - t_ref\<bar> < DBL_MAX"
    using Cons.prems(2) by auto
  have closer: "\<forall>p\<in>set (take_if_closer m (id_src (dat ! ix)) ix \<bar>meas_time (dat ! ix) - t_ref\<bar>).
      idx (snd p) \<in> S"
    by (rule take_if_closer_entries[OF Cons.prems(1) ix])
  show ?case
    using Cons.IH[OF Cons.prems(1) rest] Cons.IH[OF closer rest] Cons.prems(1)
    by (simp add: Let_def)
qed

lemma ml_match_waiting_keeps:
  assumes "\<forall>e\<in>set es. seconds \<bar>meas_time e - t_ref\<bar> < DBL_MAX"
      and "\<not> snd (ml_match_waiting R t_ref t_next es m)"
  shows "fst (ml_match_waiting R t_ref t_next es m) = m"
  using assms
proof (induction es arbitrary: m)
  case Nil
  then show ?case by simp
next
  case (Cons e es)
  have rest: "\<forall>e\<in>set es. seconds \<bar>meas_time e - t_ref\<bar> < DBL_MAX" using Cons.prems(1) by simp
  show ?case
  proof (cases "id_src e = R")
    case True
    then show ?thesis using Cons.IH[OF rest, of m] Cons.prems(2) by simp
  next
    case notR: False
    show ?thesis
    proof (cases "\<bar>meas_time e - t_next\<bar> < \<bar>meas_time e - t_ref\<bar>")
      case True
      then show ?thesis using notR by (simp add: Let_def)
    next
      case False
      have far: "\<not> seconds \<bar>meas_time e - t_ref\<bar> < tau (map_at m (id_src e))"
        using Cons.prems(2) notR False by (auto simp: Let_def split: if_splits)
      have "map_of m (id_src e) \<noteq> None"
      proof
        assume "map_of m (id_src e) = None"
        then have "tau (map_at m (id_src e)) = DBL_MAX"
          by (simp add: map_at_def default_entry_def)
        then show False using far Cons.prems(1) by simp
      qed
      then have mi: "map_index m (id_src e) = m" by (auto simp: map_index_def)
      show ?thesis
        using Cons.IH[OF rest, of m] Cons.prems(2) notR False far by (simp add: Let_def mi)
    qed
  qed
qed

lemma find_reference_ref_idx:
  "found_ref (find_reference R dat ready ref_search_init) \<Longrightarrow>
   ref_idx (find_reference R dat ready ref_search_init) \<in> set ready
   \<and> oldest_ref_meas_time (find_reference R dat ready ref_search_init)
       = meas_time (dat ! ref_idx (find_reference R dat ready ref_search_init))"
proof -
  assume f: "found_ref (find_reference R dat ready ref_search_init)"
  have fresh: "\<not> found_ref ref_search_init" by (simp add: ref_search_init_def)
  obtain r rest where refs: "ready_refs R dat ready = r # rest"
    using f unfolding find_reference_fresh[OF fresh]
    by (cases "ready_refs R dat ready") (auto simp: ref_search_init_def)
  have "r \<in> set (ready_refs R dat ready)" using refs by simp
  then have "r \<in> set ready" by (simp add: ready_refs_def)
  then show ?thesis
    unfolding find_reference_fresh[OF fresh] refs by (auto split: list.splits)
qed

text \<open>With measurement times in the 64-bit range, the tuple that \<open>runMatching\<close> returns
  consists of ready indices.\<close>

lemma ml_runMatching_tuple:
  assumes ord: "\<And>m. set (ord m) \<subseteq> set m"
      and ok: "\<forall>e\<in>set dat. time_ok (meas_time e)"
      and rng: "\<forall>ix\<in>set ready. ix < length dat"
  shows "set (fst (ml_runMatching ord params infos dat ready)) \<subseteq> set ready"
proof -
  define R where "R = reference_stream (mlp_match params)"
  define st where "st = ml_find_refs R infos dat (sort ready)"
  define fr where "fr = find_reference R dat (sort ready) ref_search_init"
  show ?thesis
  proof (cases "found_ref st")
    case False
    then show ?thesis by (simp add: ml_runMatching_def Let_def st_def R_def)
  next
    case True
    have same: "found_ref st = found_ref fr" "ref_idx st = ref_idx fr"
      "oldest_ref_meas_time st = oldest_ref_meas_time fr"
      by (auto simp: st_def fr_def ml_find_refs_def Let_def split: option.splits)
    have ref: "ref_idx st \<in> set ready" "oldest_ref_meas_time st = meas_time (dat ! ref_idx st)"
      using find_reference_ref_idx[of R dat "sort ready"] True same by (auto simp: fr_def)
    have tref: "time_ok (oldest_ref_meas_time st)"
      using ref rng ok by (metis nth_mem)
    obtain m1 latest where mr:
      "ml_match_ready R (oldest_ref_meas_time st) (next_ref_meas_time st) dat (sort ready)
         ([(R, \<lparr> idx = ref_idx st, tau = 0 \<rparr>)], 0) = (m1, latest)"
      by (cases "ml_match_ready R (oldest_ref_meas_time st) (next_ref_meas_time st) dat (sort ready)
         ([(R, \<lparr> idx = ref_idx st, tau = 0 \<rparr>)], 0)")
    have m1: "\<forall>p\<in>set m1. idx (snd p) \<in> set ready"
    proof -
      have a: "\<forall>p\<in>set [(R, \<lparr> idx = ref_idx st, tau = 0 \<rparr>)]. idx (snd p) \<in> set ready"
        using ref(1) by simp
      have b: "\<forall>ix\<in>set (sort ready). ix \<in> set ready
            \<and> seconds \<bar>meas_time (dat ! ix) - oldest_ref_meas_time st\<bar> < DBL_MAX"
        using rng ok tref by (auto intro!: seconds_below_DBL_MAX)
      show ?thesis
        using ml_match_ready_entries[OF a b, of R "next_ref_meas_time st" 0] mr by simp
    qed
    obtain mm better where mw:
      "ml_match_waiting R (oldest_ref_meas_time st) (next_ref_meas_time st)
         (drop (latest + 1) dat) m1 = (mm, better)"
      by (cases "ml_match_waiting R (oldest_ref_meas_time st) (next_ref_meas_time st)
         (drop (latest + 1) dat) m1")
    have scan: "ml_matching_scan params infos dat (sort ready) = (mm, better)"
      using mr mw by (simp add: ml_matching_scan_def Let_def R_def[symmetric] st_def[symmetric])
    have keep: "\<not> better \<Longrightarrow> mm = m1"
    proof -
      assume nb: "\<not> better"
      have c: "\<forall>e\<in>set (drop (latest + 1) dat).
          seconds \<bar>meas_time e - oldest_ref_meas_time st\<bar> < DBL_MAX"
        using ok tref by (auto intro!: seconds_below_DBL_MAX dest: in_set_dropD)
      show "mm = m1"
        using ml_match_waiting_keeps[OF c, of R "next_ref_meas_time st" m1] mw nb by simp
    qed
    have run: "fst (ml_runMatching ord params infos dat ready)
        = (if length mm \<noteq> length infos then []
           else if better then []
           else map (\<lambda>map_entry. idx (snd map_entry)) (ord mm))"
      using True scan
      by (simp add: ml_runMatching_def Let_def R_def[symmetric] st_def[symmetric])
    show ?thesis
      unfolding run using keep m1 ord by (auto split: if_splits)
  qed
qed

lemma ml_runBatching_subset:
  "ml_runBatching params dat ready t = [] \<or> ml_runBatching params dat ready t = ready"
  by (simp add: ml_runBatching_def Let_def)


subsection \<open>The selected indices of the minimal-latency buffer\<close>

lemma ml_select_sorted:
  assumes "mlp_mode (ml_params s) \<noteq> MATCH" and "sorted_wrt (<) (output_inds acc)"
  shows "sorted_wrt (<) (fst (ml_select ord s acc))"
  using assms ml_runBatching_subset[of "ml_params s" "p_data acc" "output_inds acc" "p_time acc"]
  by (auto simp: ml_select_def)

lemma ml_select_subset:
  assumes "\<And>m. set (ord m) \<subseteq> set m"
      and "\<forall>e\<in>set (p_data acc). time_ok (meas_time e)"
      and "\<forall>ix\<in>set (output_inds acc). ix < length (p_data acc)"
  shows "set (fst (ml_select ord s acc)) \<subseteq> set (output_inds acc)"
proof -
  have m: "set (fst (ml_runMatching ord (ml_params s) (ml_source_infos s) (p_data acc) (output_inds acc)))
      \<subseteq> set (output_inds acc)"
    by (rule ml_runMatching_tuple[OF assms])
  show ?thesis
    using m ml_runBatching_subset[of "ml_params s" "p_data acc" "output_inds acc" "p_time acc"]
    by (auto simp: ml_select_def case_prod_beta)
qed

lemma ml_pop_data:
  assumes "\<not> t < ml_current_time s"
  shows "pr_data (fst (ml_pop ord Q t s)) =
     map ((!) (p_data (ml_pop_loop Q s (ml_data s) 0 (pop_loop_init t (ml_data s)))))
       (fst (ml_select ord s (ml_pop_loop Q s (ml_data s) 0 (pop_loop_init t (ml_data s)))))"
  using assms by (simp add: ml_pop_def Let_def case_prod_beta)

lemma ml_pop_buffer_time:
  "pr_buffer_time (fst (ml_pop ord Q t s)) =
     (if pr_data (fst (ml_pop ord Q t s)) \<noteq> [] then meas_time (last (pr_data (fst (ml_pop ord Q t s))))
      else ml_buffer_time s)"
  by (simp add: ml_pop_def Let_def case_prod_beta)

lemma fl_pop_data:
  "pr_data (fst (fl_pop ord t s)) = map ((!) (fl_data s)) (fst (fl_select ord t s))"
  by (simp add: fl_pop_def Let_def case_prod_beta)

lemma fl_pop_buffer_time:
  "pr_buffer_time (fst (fl_pop ord t s)) =
     (if pr_data (fst (fl_pop ord t s)) \<noteq> [] then meas_time (last (pr_data (fst (fl_pop ord t s))))
      else fl_buffer_time s)"
  by (simp add: fl_pop_def Let_def case_prod_beta)

text \<open>The released samples of the minimal-latency buffer are real samples of the queue
  that are not older than \<open>buffer_time\<close>.\<close>

lemma ml_pop_released:
  assumes ord: "\<And>m. set (ord m) \<subseteq> set m"
      and ok: "\<forall>e\<in>set (ml_data s). time_ok (meas_time e)"
      and e: "e \<in> set (pr_data (fst (ml_pop ord Q t s)))"
  shows "ml_buffer_time s \<le> meas_time e \<and> data e \<noteq> None"
proof (cases "t < ml_current_time s")
  case True
  then show ?thesis using e by (simp add: ml_pop_def)
next
  case False
  define acc where "acc = ml_pop_loop Q s (ml_data s) 0 (pop_loop_init t (ml_data s))"
  have inv: "map sample_of (p_data acc) = map sample_of (ml_data s)"
    "\<forall>x\<in>set (output_inds acc). x < length (ml_data s)
        \<and> \<not> meas_time (ml_data s ! x) < ml_buffer_time s \<and> data (ml_data s ! x) \<noteq> None"
    using ml_pop_loop_start[of Q s t] by (auto simp: acc_def)
  have len: "length (p_data acc) = length (ml_data s)" using inv(1) by (metis length_map)
  have ok': "\<forall>e\<in>set (p_data acc). time_ok (meas_time e)"
  proof
    fix x assume "x \<in> set (p_data acc)"
    then obtain k where k: "k < length (p_data acc)" "x = p_data acc ! k"
      by (metis in_set_conv_nth)
    then have "meas_time x = meas_time (ml_data s ! k)"
      using sample_of_nth[OF inv(1), of k] len by simp
    then show "time_ok (meas_time x)" using ok k len by (metis nth_mem)
  qed
  have sub: "set (fst (ml_select ord s acc)) \<subseteq> set (output_inds acc)"
    by (rule ml_select_subset[OF ord ok']) (use inv(2) len in auto)
  obtain ix where ix: "ix \<in> set (fst (ml_select ord s acc))" "e = p_data acc ! ix"
    using e unfolding ml_pop_data[OF False] acc_def[symmetric] by auto
  have "ix \<in> set (output_inds acc)" using ix(1) sub by blast
  then have "ix < length (ml_data s)" "\<not> meas_time (ml_data s ! ix) < ml_buffer_time s"
    "data (ml_data s ! ix) \<noteq> None"
    using inv(2) by auto
  then show ?thesis using sample_of_nth[OF inv(1), of ix] ix(2) by simp
qed

lemma ml_pop_sorted:
  assumes "mlp_mode (ml_params s) \<noteq> MATCH" and "sorted (map meas_time (ml_data s))"
  shows "sorted (map meas_time (pr_data (fst (ml_pop ord Q t s))))"
proof (cases "t < ml_current_time s")
  case True
  then show ?thesis by (simp add: ml_pop_def)
next
  case False
  define acc where "acc = ml_pop_loop Q s (ml_data s) 0 (pop_loop_init t (ml_data s))"
  have inv: "map sample_of (p_data acc) = map sample_of (ml_data s)"
    "sorted_wrt (<) (output_inds acc)"
    "\<forall>x\<in>set (output_inds acc). x < length (ml_data s)"
    using ml_pop_loop_start[of Q s t] by (auto simp: acc_def)
  have len: "length (p_data acc) = length (ml_data s)" using inv(1) by (metis length_map)
  have mt: "map meas_time (p_data acc) = map meas_time (ml_data s)"
    using len sample_of_nth[OF inv(1)] by (auto intro!: nth_equalityI)
  have sel: "sorted_wrt (<) (fst (ml_select ord s acc))"
    by (rule ml_select_sorted[OF assms(1) inv(2)])
  have sub: "set (fst (ml_select ord s acc)) \<subseteq> set (output_inds acc)"
    using assms(1) ml_runBatching_subset[of "ml_params s" "p_data acc" "output_inds acc" "p_time acc"]
    by (auto simp: ml_select_def)
  have "sorted (map (\<lambda>ix. meas_time (p_data acc ! ix)) (fst (ml_select ord s acc)))"
    by (rule sorted_map_nth) (use assms(2) mt sel sub inv(3) len in auto)
  then show ?thesis
    unfolding ml_pop_data[OF False] acc_def[symmetric] by (simp add: comp_def)
qed

lemma fl_pop_sorted:
  assumes "flp_mode (fl_params s) \<noteq> MATCH" and "sorted (map meas_time (fl_data s))"
  shows "sorted (map meas_time (pr_data (fst (fl_pop ord t s))))"
proof -
  have "sorted (map (\<lambda>ix. meas_time (fl_data s ! ix)) (fst (fl_select ord t s)))"
    by (rule sorted_map_nth) (use assms(2) fl_select_inds[OF assms(1), of ord t] in auto)
  then show ?thesis by (simp add: fl_pop_data comp_def)
qed

lemma fl_pop_released:
  assumes "flp_mode (fl_params s) \<noteq> MATCH" and "sorted (map meas_time (fl_data s))"
      and "e \<in> set (pr_data (fst (fl_pop ord t s)))"
  shows "fl_buffer_time s < meas_time e"
proof -
  obtain x where x: "x \<in> set (fst (fl_select ord t s))" "e = fl_data s ! x"
    using assms(3) by (auto simp: fl_pop_data)
  then obtain y where y: "x < length (fl_data s)" "y \<le> x"
    "fl_buffer_time s < meas_time (fl_data s ! y)"
    using fl_select_inds[OF assms(1), of ord t] by blast
  have "map meas_time (fl_data s) ! y \<le> map meas_time (fl_data s) ! x"
    by (rule sorted_nth_mono[OF assms(2)]) (use y in auto)
  then show ?thesis using x y by simp
qed

lemma sorted_queue_after:
  "sorted (map meas_time (fl_data (snd (fl_push i receipt_t meas_t d s))))
   \<and> sorted (map meas_time (fl_data (snd (fl_pop ord t s))))
   \<and> sorted (map meas_time (ml_data (snd (ml_push Q i receipt_t meas_t d s'))))
   \<and> (sorted (map meas_time (ml_data s'))
        \<longrightarrow> sorted (map meas_time (ml_data (snd (ml_pop ord Q t s')))))"
  by (simp add: fl_push_def fl_reset_def fl_pop_def ml_push_def ml_reset_def ml_pop_def
        sort_by_meas_time_def Let_def case_prod_beta split: option.splits)

text \<open>
  In SINGLE and BATCH mode the data vector of every pop of either buffer, on a queue
  sorted by \<open>meas_time\<close>, is ordered by \<open>meas_time\<close> ascending and in queue order: it
  consists of the queue's samples at strictly increasing positions. The queue is sorted
  after every push and every pop.
\<close>

lemma single_batch_output_order:
  "(flp_mode (fl_params s) \<noteq> MATCH \<and> sorted (map meas_time (fl_data s)) \<longrightarrow>
      sorted (map meas_time (pr_data (fst (fl_pop ord t s))))
      \<and> (\<exists>inds. sorted_wrt (<) inds
            \<and> pr_data (fst (fl_pop ord t s)) = map ((!) (fl_data s)) inds))
   \<and> (mlp_mode (ml_params s') \<noteq> MATCH \<and> sorted (map meas_time (ml_data s')) \<longrightarrow>
      sorted (map meas_time (pr_data (fst (ml_pop ord' Q t' s'))))
      \<and> (\<exists>inds. sorted_wrt (<) inds
            \<and> map sample_of (pr_data (fst (ml_pop ord' Q t' s')))
                = map ((!) (map sample_of (ml_data s'))) inds))
   \<and> sorted (map meas_time (fl_data (snd (fl_push i receipt_t meas_t d s))))
   \<and> sorted (map meas_time (fl_data (snd (fl_pop ord t s))))
   \<and> sorted (map meas_time (ml_data (snd (ml_push Q i receipt_t meas_t d s'))))
   \<and> (sorted (map meas_time (ml_data s'))
        \<longrightarrow> sorted (map meas_time (ml_data (snd (ml_pop ord' Q t' s')))))"
proof -
  have fl: "\<exists>inds. sorted_wrt (<) inds \<and> pr_data (fst (fl_pop ord t s)) = map ((!) (fl_data s)) inds"
    if "flp_mode (fl_params s) \<noteq> MATCH"
    using fl_select_inds[OF that, of ord t] fl_pop_data[of ord t s] by blast
  have ml: "\<exists>inds. sorted_wrt (<) inds
            \<and> map sample_of (pr_data (fst (ml_pop ord' Q t' s')))
                = map ((!) (map sample_of (ml_data s'))) inds"
    if mode: "mlp_mode (ml_params s') \<noteq> MATCH"
  proof (cases "t' < ml_current_time s'")
    case True
    then have "pr_data (fst (ml_pop ord' Q t' s')) = []" by (simp add: ml_pop_def)
    then show ?thesis by (intro exI[of _ "[]"]) simp
  next
    case False
    define acc where "acc = ml_pop_loop Q s' (ml_data s') 0 (pop_loop_init t' (ml_data s'))"
    have inv: "map sample_of (p_data acc) = map sample_of (ml_data s')"
      "sorted_wrt (<) (output_inds acc)"
      "\<forall>x\<in>set (output_inds acc). x < length (ml_data s')"
      using ml_pop_loop_start[of Q s' t'] by (auto simp: acc_def)
    have len: "length (p_data acc) = length (ml_data s')" using inv(1) by (metis length_map)
    have sel: "sorted_wrt (<) (fst (ml_select ord' s' acc))"
      by (rule ml_select_sorted[OF mode inv(2)])
    have sub: "set (fst (ml_select ord' s' acc)) \<subseteq> set (output_inds acc)"
      using mode ml_runBatching_subset[of "ml_params s'" "p_data acc" "output_inds acc" "p_time acc"]
      by (auto simp: ml_select_def)
    have "map sample_of (pr_data (fst (ml_pop ord' Q t' s')))
        = map (\<lambda>ix. sample_of (p_data acc ! ix)) (fst (ml_select ord' s' acc))"
      unfolding ml_pop_data[OF False] acc_def[symmetric] by (simp add: comp_def)
    also have "\<dots> = map ((!) (map sample_of (ml_data s'))) (fst (ml_select ord' s' acc))"
    proof (rule map_cong[OF refl])
      fix ix assume "ix \<in> set (fst (ml_select ord' s' acc))"
      then have lt: "ix < length (ml_data s')" using sub inv(3) by blast
      have "sample_of (p_data acc ! ix) = map sample_of (p_data acc) ! ix"
        using lt len by simp
      then show "sample_of (p_data acc ! ix) = map sample_of (ml_data s') ! ix"
        using inv(1) by simp
    qed
    finally show ?thesis using sel by blast
  qed
  show ?thesis
    using fl ml fl_pop_sorted[of s ord t] ml_pop_sorted[of s' ord' Q t']
      sorted_queue_after[of i receipt_t meas_t d s ord t Q s']
      sorted_queue_after[of i receipt_t meas_t d s ord' t' Q s']
    by blast
qed

text \<open>
  Claim C9 fails on the code in MATCH mode: the tuple is returned in the iteration order
  of the matching map and is not sorted, and \<open>buffer_time\<close> is set to the \<open>meas_time\<close> of
  the last element of the data vector, which is then not the latest one released. In the
  minimal-latency buffer, with the map iterated in reverse insertion order, the pair of
  50ms (reference) and 55ms comes out as 55ms, 50ms and \<open>buffer_time\<close> becomes 50ms (in
  insertion order the same pair comes out sorted); the sample of 52ms that a third stream
  delivers afterwards is released by the next pop, after a sample of 55ms has been
  released. In the fixed-lag buffer with three streams and the reference in the middle
  (90, 100, 110ms) the data is 100, 90, 110ms in insertion order and 110, 90, 100ms in
  reverse insertion order.
\<close>

theorem match_output_out_of_order:
  "map sample_of (ml_data match_pair_state) = [(50, ms 50, Some ()), (100, ms 55, Some ())]
   \<and> map sample_of (pr_data (fst (ml_pop reverse_order no_quantile (ms 65) match_pair_state)))
       = [(100, ms 55, Some ()), (50, ms 50, Some ())]
   \<and> pr_buffer_time (fst (ml_pop reverse_order no_quantile (ms 65) match_pair_state)) = ms 50
   \<and> map sample_of (pr_data (fst (ml_pop insertion_order no_quantile (ms 65) match_pair_state)))
       = [(50, ms 50, Some ()), (100, ms 55, Some ())]
   \<and> map sample_of (ml_data match_followup_state)
       = [(150, ms 52, Some ()), (50, ms 100, Some ()), (100, ms 105, Some ())]
   \<and> ml_buffer_time match_followup_state = ms 50
   \<and> map sample_of (pr_data (fst (ml_pop reverse_order no_quantile (ms 115) match_followup_state)))
       = [(100, ms 105, Some ()), (150, ms 52, Some ()), (50, ms 100, Some ())]
   \<and> pr_discarded_data (fst (ml_pop reverse_order no_quantile (ms 115) match_followup_state)) = []
   \<and> map meas_time (fl_data three_streams_state) = [ms 90, ms 100, ms 110]
   \<and> map meas_time (pr_data (fst (fl_pop insertion_order (ms 200) three_streams_state)))
       = [ms 100, ms 90, ms 110]
   \<and> map meas_time (pr_data (fst (fl_pop reverse_order (ms 200) three_streams_state)))
       = [ms 110, ms 90, ms 100]"
  by (simp add: match_pair_state_def match_followup_state_def three_streams_state_def model_defs)


text \<open>
  Claim C1, as the code has it. The minimal-latency buffer (all modes, measurement times
  in the 64-bit range) releases only samples whose \<open>meas_time\<close> is at least the
  \<open>buffer_time\<close> held when \<open>pop\<close> is called: a sample with \<open>meas_time = buffer_time\<close> is
  released. The fixed-lag buffer in SINGLE and BATCH mode, on its sorted queue, releases
  only samples with \<open>meas_time\<close> above that \<open>buffer_time\<close>. In these cases the \<open>buffer_time\<close>
  that \<open>pop\<close> returns is not below the one held before; \<open>pop\<close> stores what it returns, and a
  push that returns OK leaves \<open>buffer_time\<close> as it is.
\<close>

theorem released_not_before_buffer_time:
  "(flp_mode (fl_params s) \<noteq> MATCH \<and> sorted (map meas_time (fl_data s)) \<longrightarrow>
       (\<forall>e\<in>set (pr_data (fst (fl_pop ord t s))). fl_buffer_time s < meas_time e)
       \<and> fl_buffer_time s \<le> pr_buffer_time (fst (fl_pop ord t s)))
   \<and> ((\<forall>m. set (ord' m) \<subseteq> set m) \<and> (\<forall>e\<in>set (ml_data s'). time_ok (meas_time e)) \<longrightarrow>
       (\<forall>e\<in>set (pr_data (fst (ml_pop ord' Q t' s'))). ml_buffer_time s' \<le> meas_time e)
       \<and> ml_buffer_time s' \<le> pr_buffer_time (fst (ml_pop ord' Q t' s')))
   \<and> fl_buffer_time (snd (fl_pop ord t s)) = pr_buffer_time (fst (fl_pop ord t s))
   \<and> ml_buffer_time (snd (ml_pop ord' Q t' s')) = pr_buffer_time (fst (ml_pop ord' Q t' s'))
   \<and> (fst (fl_push i receipt_t meas_t d s) = OK \<longrightarrow>
        fl_buffer_time (snd (fl_push i receipt_t meas_t d s)) = fl_buffer_time s)
   \<and> (fst (ml_push Q i receipt_t meas_t d s') = OK \<longrightarrow>
        ml_buffer_time (snd (ml_push Q i receipt_t meas_t d s')) = ml_buffer_time s')"
proof (intro conjI impI)
  assume a: "flp_mode (fl_params s) \<noteq> MATCH \<and> sorted (map meas_time (fl_data s))"
  show all: "\<forall>e\<in>set (pr_data (fst (fl_pop ord t s))). fl_buffer_time s < meas_time e"
    using fl_pop_released[of s _ ord t] a by blast
  show "fl_buffer_time s \<le> pr_buffer_time (fst (fl_pop ord t s))"
  proof (cases "pr_data (fst (fl_pop ord t s)) = []")
    case True
    then show ?thesis by (simp add: fl_pop_buffer_time)
  next
    case False
    then have "last (pr_data (fst (fl_pop ord t s))) \<in> set (pr_data (fst (fl_pop ord t s)))"
      by simp
    then have "fl_buffer_time s < meas_time (last (pr_data (fst (fl_pop ord t s))))"
      using all by blast
    then show ?thesis using False by (simp add: fl_pop_buffer_time)
  qed
next
  assume a: "(\<forall>m. set (ord' m) \<subseteq> set m) \<and> (\<forall>e\<in>set (ml_data s'). time_ok (meas_time e))"
  show all: "\<forall>e\<in>set (pr_data (fst (ml_pop ord' Q t' s'))). ml_buffer_time s' \<le> meas_time e"
    using ml_pop_released[of ord' s' _ Q t'] a by blast
  show "ml_buffer_time s' \<le> pr_buffer_time (fst (ml_pop ord' Q t' s'))"
  proof (cases "pr_data (fst (ml_pop ord' Q t' s')) = []")
    case True
    then show ?thesis by (simp add: ml_pop_buffer_time)
  next
    case False
    then have "last (pr_data (fst (ml_pop ord' Q t' s'))) \<in> set (pr_data (fst (ml_pop ord' Q t' s')))"
      by simp
    then have "ml_buffer_time s' \<le> meas_time (last (pr_data (fst (ml_pop ord' Q t' s'))))"
      using all by blast
    then show ?thesis using False by (simp add: ml_pop_buffer_time)
  qed
next
  show "fl_buffer_time (snd (fl_pop ord t s)) = pr_buffer_time (fst (fl_pop ord t s))"
    by (simp add: fl_pop_def Let_def case_prod_beta)
next
  show "ml_buffer_time (snd (ml_pop ord' Q t' s')) = pr_buffer_time (fst (ml_pop ord' Q t' s'))"
    by (simp add: ml_pop_def Let_def case_prod_beta)
next
  assume "fst (fl_push i receipt_t meas_t d s) = OK"
  then show "fl_buffer_time (snd (fl_push i receipt_t meas_t d s)) = fl_buffer_time s"
    by (simp add: fl_push_def split: if_splits)
next
  assume "fst (ml_push Q i receipt_t meas_t d s') = OK"
  then show "ml_buffer_time (snd (ml_push Q i receipt_t meas_t d s')) = ml_buffer_time s'"
    by (simp add: ml_push_def Let_def case_prod_beta split: if_splits option.splits)
qed

theorem released_not_before_buffer_time_witness:
  "flp_mode (fl_params batch_near_state) \<noteq> MATCH
   \<and> sorted (map meas_time (fl_data batch_near_state))
   \<and> fl_buffer_time batch_near_state = 0
   \<and> map meas_time (pr_data (fst (fl_pop insertion_order (ms 112) batch_near_state)))
       = [ms 100, ms 105]
   \<and> pr_buffer_time (fst (fl_pop insertion_order (ms 112) batch_near_state)) = ms 105
   \<and> map meas_time (ml_data missed_sample_state) = [ms 100, ms 200, ms 250]
   \<and> time_ok (ms 100) \<and> time_ok (ms 200) \<and> time_ok (ms 250)
   \<and> ml_buffer_time missed_sample_state = ms 50
   \<and> map meas_time (pr_data (fst (ml_pop insertion_order no_quantile (ms 210) missed_sample_state)))
       = [ms 100]
   \<and> pr_buffer_time (fst (ml_pop insertion_order no_quantile (ms 210) missed_sample_state)) = ms 100
   \<and> fst (ml_push no_quantile 50 (ms 260) (ms 250) () missed_sample_state) = OK
   \<and> ml_buffer_time (snd (ml_push no_quantile 50 (ms 260) (ms 250) () missed_sample_state)) = ms 50"
proof -
  have ord: "\<forall>m. set (insertion_order m) \<subseteq> set m"
    by (simp add: insertion_order_def)
  have ok: "\<forall>e\<in>set (ml_data missed_sample_state). time_ok (meas_time e)"
    by (simp add: missed_sample_state_def model_defs time_ok_def)
  show ?thesis
    using released_not_before_buffer_time[where s = batch_near_state and ord = insertion_order
        and t = "ms 112" and s' = missed_sample_state and ord' = insertion_order
        and Q = no_quantile and t' = "ms 210" and i = 50 and receipt_t = "ms 260"
        and meas_t = "ms 250" and d = "()"] ord ok
    by (simp add: batch_near_state_def missed_sample_state_def model_defs time_ok_def)
qed

text \<open>The claim as stated fails: in the run of the unit test \<^verbatim>\<open>zeroLatency\<close> the buffer
  time is 60ms and the pop releases the sample of stream 100 measured at 60ms.\<close>

theorem equal_meas_time_counterexample:
  "ml_buffer_time zero_latency_state = ms 60
   \<and> map meas_time
        (pr_data (fst (ml_pop insertion_order no_quantile (ms 60) zero_latency_state))) = [ms 60]"
  by (simp add: zero_latency_state_def model_defs)

text \<open>The match step of the fixed-lag buffer scans the whole queue, the samples at or
  below \<open>buffer_time\<close> included: with \<open>buffer_time = 100ms\<close> it releases the sample of 90ms,
  which is also among the discarded samples, and with the tuple in insertion order the
  returned \<open>buffer_time\<close> falls to 90ms.\<close>

lemma fl_match_releases_old_sample:
  "fl_buffer_time old_partner_state = ms 100
   \<and> map meas_time (pr_data (fst (fl_pop insertion_order (ms 300) old_partner_state)))
       = [ms 110, ms 90]
   \<and> map meas_time (pr_discarded_data (fst (fl_pop insertion_order (ms 300) old_partner_state)))
       = [ms 90]
   \<and> pr_buffer_time (fst (fl_pop insertion_order (ms 300) old_partner_state)) = ms 90
   \<and> map meas_time (pr_data (fst (fl_pop reverse_order (ms 300) old_partner_state)))
       = [ms 90, ms 110]"
  by (simp add: old_partner_state_def model_defs)

end
